theory Spec2Isabelle
  imports Complex_Main "HOL-Library.Word" "HOL-Library.Sublist"
begin

unbundle bit_operations_syntax

section \<open>Bytes, slices and the struct module\<close>

text \<open>
  A Python \<open>bytes\<close> object is a list of 8-bit words. A Python \<open>float\<close> is an IEEE-754
  binary64 value; the codec never computes with it, it only moves its 64-bit pattern in and
  out of a buffer, so a float is modelled by that pattern. \<open>0.0\<close> is the pattern \<open>0\<close>.
\<close>

type_synonym byte = "8 word"
type_synonym double = "64 word"

text \<open>The exceptions the modelled code can raise; all are subclasses of \<open>Exception\<close>.\<close>

datatype exn = StructError | TypeError | ZeroDivisionError | ValueError

text \<open>
  Both parsers return \<open>None\<close> on every failure. The model keeps apart the places where
  that happens: the three explicit \<open>logger.error(...); return None\<close> of
  \<open>parse_ros2_image\<close> (lines 33-35, 39-41, 59-61), the one of \<open>parse_twist_message\<close>
  (lines 16-18), and an exception caught by the enclosing \<open>except Exception\<close>.
\<close>

datatype failure =
    Invalid_twist_message_size
  | Camera_not_found
  | Invalid_frame_id_position
  | Rgb8_not_found
  | Raised exn

text \<open>Little-endian byte strings: \<open>n.to_bytes(k, 'little')\<close> and \<open>int.from_bytes(bs, 'little')\<close>.\<close>

fun le_bytes :: "nat \<Rightarrow> int \<Rightarrow> byte list" where
  "le_bytes 0 n = []"
| "le_bytes (Suc k) n = word_of_int n # le_bytes k (n div 256)"

fun le_value :: "byte list \<Rightarrow> int" where
  "le_value [] = 0"
| "le_value (b # bs) = uint b + 256 * le_value bs"

text \<open>\<open>struct.pack('<d', x)\<close> and \<open>struct.unpack('<d', bs)\<close> on the bit pattern of the float.\<close>

definition pack_d :: "double \<Rightarrow> byte list" where
  "pack_d d = le_bytes 8 (uint d)"

definition unpack_d :: "byte list \<Rightarrow> double" where
  "unpack_d bs = word_of_int (le_value bs)"

text \<open>
  Python slicing \<open>xs[i:j]\<close> and \<open>xs[i:]\<close>: a negative index counts from the end, and
  every index is clamped to the list, so a slice never raises; it is only shorter.
\<close>

definition norm_index :: "int \<Rightarrow> nat \<Rightarrow> nat" where
  "norm_index i n = (if i < 0 then nat (max 0 (i + int n)) else min (nat i) n)"

definition py_slice :: "'a list \<Rightarrow> int \<Rightarrow> int \<Rightarrow> 'a list" where
  "py_slice xs i j =
     (let lo = norm_index i (length xs); hi = norm_index j (length xs)
      in take (hi - lo) (drop lo xs))"

definition py_slice_from :: "'a list \<Rightarrow> int \<Rightarrow> 'a list" where
  "py_slice_from xs i = drop (norm_index i (length xs)) xs"

text \<open>
  \<open>struct.pack('<ddd', a, b, c)\<close>; \<open>struct.unpack('<ddd', bs)\<close>, which raises
  \<open>struct.error\<close> unless \<open>bs\<close> has 24 bytes; \<open>struct.unpack('<I', bs)\<close>, which raises
  unless \<open>bs\<close> has 4 bytes; and \<open>struct.pack_into(fmt, buffer, offset, ...)\<close>, which raises
  when the packed bytes do not fit into the buffer at the offset.
\<close>

definition pack_ddd :: "double \<Rightarrow> double \<Rightarrow> double \<Rightarrow> byte list" where
  "pack_ddd a b c = pack_d a @ pack_d b @ pack_d c"

definition unpack_ddd :: "byte list \<Rightarrow> exn + (double \<times> double \<times> double)" where
  "unpack_ddd bs =
     (if length bs \<noteq> 24 then Inl StructError
      else Inr (unpack_d (take 8 bs), unpack_d (take 8 (drop 8 bs)),
                unpack_d (take 8 (drop 16 bs))))"

definition unpack_I :: "byte list \<Rightarrow> exn + int" where
  "unpack_I bs = (if length bs \<noteq> 4 then Inl StructError else Inr (le_value bs))"

definition pack_into :: "byte list \<Rightarrow> nat \<Rightarrow> byte list \<Rightarrow> exn + byte list" where
  "pack_into buffer offset bs =
     (if length buffer < offset + length bs then Inl StructError
      else Inr (take offset buffer @ bs @ drop (offset + length bs) buffer))"

text \<open>A bytes literal such as \<open>b'camera'\<close>, and \<open>bytes.find\<close>: the lowest index or \<open>-1\<close>.\<close>

definition ascii :: "string \<Rightarrow> byte list" where
  "ascii s = map (\<lambda>c. of_nat (of_char c)) s"

fun find_from :: "byte list \<Rightarrow> byte list \<Rightarrow> int \<Rightarrow> int" where
  "find_from sub [] i = (if sub = [] then i else - 1)"
| "find_from sub (b # bs) i =
     (if prefix sub (b # bs) then i else find_from sub bs (i + 1))"

definition find_bytes :: "byte list \<Rightarrow> byte list \<Rightarrow> int" where
  "find_bytes bs sub = find_from sub bs 0"

section \<open>monitor\_twist\_commands.py: parse\_twist\_message\<close>

text \<open>
  The returned dictionary \<open>{'linear': {'x', 'y', 'z'}, 'angular': {'x', 'y', 'z'}}\<close>, with
  the fields named as the local variables that fill it.
\<close>

record twist =
  linear_x :: double
  linear_y :: double
  linear_z :: double
  angular_x :: double
  angular_y :: double
  angular_z :: double

definition parse_twist_body :: "byte list \<Rightarrow> failure + twist" where
  "parse_twist_body data =
     (if length data \<noteq> 48 then Inl Invalid_twist_message_size
      else (case unpack_ddd (py_slice data 0 24) of
              Inl e \<Rightarrow> Inl (Raised e)
            | Inr (lx, ly, lz) \<Rightarrow>
                (case unpack_ddd (py_slice data 24 48) of
                   Inl e \<Rightarrow> Inl (Raised e)
                 | Inr (ax, ay, az) \<Rightarrow>
                     Inr \<lparr>linear_x = lx, linear_y = ly, linear_z = lz,
                          angular_x = ax, angular_y = ay, angular_z = az\<rparr>)))"

definition parse_twist_message :: "byte list \<Rightarrow> twist option" where
  "parse_twist_message data =
     (case parse_twist_body data of Inl _ \<Rightarrow> None | Inr t \<Rightarrow> Some t)"

section \<open>zenoh\_person\_follow.py: create\_twist\_message\<close>

text \<open>
  The body of the \<open>try\<close>: a zeroed 48-byte buffer and two \<open>pack_into\<close>. The handler calls
  the function again with \<open>(0.0, 0.0)\<close>, so the function is defined as a possibly
  non-returning one and shown to return.
\<close>

definition create_twist_body :: "double \<Rightarrow> double \<Rightarrow> exn + byte list" where
  "create_twist_body lin_x ang_z =
     (let buffer = replicate 48 0 in
      (case pack_into buffer 0 (pack_ddd lin_x 0 0) of
         Inl e \<Rightarrow> Inl e
       | Inr buffer \<Rightarrow>
           (case pack_into buffer 24 (pack_ddd 0 0 ang_z) of
              Inl e \<Rightarrow> Inl e
            | Inr buffer \<Rightarrow> Inr buffer)))"

partial_function (option) create_twist_message :: "double \<Rightarrow> double \<Rightarrow> byte list option" where
  "create_twist_message lin_x ang_z =
     (case create_twist_body lin_x ang_z of
        Inr buffer \<Rightarrow> Some buffer
      | Inl e \<Rightarrow> create_twist_message 0 0)"

text \<open>A float is finite when its exponent field (bits 52 to 62) is not all ones.\<close>

definition is_finite :: "double \<Rightarrow> bool" where
  "is_finite d = (take_bit 11 (drop_bit 52 d) \<noteq> (2047 :: double))"

section \<open>zenoh\_person\_follow.py: parse\_ros2\_image\<close>

text \<open>
  The argument is the received payload as bytes (lines 22-25 only convert it).
  Lines 29-61: the two marker searches, the length prefix and the two dimension fields.
  The values the rest of the function can see are collected in a record.
\<close>

record header =
  camera_pos :: int
  frame_id_len :: int
  height_field :: int
  width_field :: int
  rgb8_pos :: int

definition parse_header :: "byte list \<Rightarrow> failure + header" where
  "parse_header payload_bytes =
     (let cam = find_bytes payload_bytes (ascii ''camera'') in
      (if cam = - 1 then Inl Camera_not_found
       else (let frame_id_len_pos = cam - 4 in
        (if frame_id_len_pos < 0 then Inl Invalid_frame_id_position
         else (case unpack_I (py_slice payload_bytes frame_id_len_pos (frame_id_len_pos + 4)) of
            Inl e \<Rightarrow> Inl (Raised e)
          | Inr id_len \<Rightarrow>
             (let frame_id_end = cam + id_len in
              (case unpack_I (py_slice payload_bytes frame_id_end (frame_id_end + 4)) of
                 Inl e \<Rightarrow> Inl (Raised e)
               | Inr height \<Rightarrow>
                  (case unpack_I (py_slice payload_bytes (frame_id_end + 4) (frame_id_end + 8)) of
                     Inl e \<Rightarrow> Inl (Raised e)
                   | Inr width \<Rightarrow>
                      (let rgb = find_bytes payload_bytes (ascii ''rgb8'') in
                       (if rgb = - 1 then Inl Rgb8_not_found
                        else Inr \<lparr>camera_pos = cam, frame_id_len = id_len,
                                  height_field = height, width_field = width,
                                  rgb8_pos = rgb\<rparr>))))))))))"

text \<open>Line 65: \<open>header_size = rgb8_pos + 5 + 1 + 4  # encoding + is_bigendian + step\<close>.\<close>

definition header_size :: "int \<Rightarrow> int" where
  "header_size rgb = rgb + 5 + 1 + 4"

text \<open>Lines 70-81: the table and the \<open>for\<close> loop that leaves at the first match.\<close>

definition common_resolutions :: "(int \<times> int) list" where
  "common_resolutions =
     [(640, 480), (800, 600), (1024, 768), (1280, 720), (1280, 960),
      (1920, 1080), (1280, 1024), (1600, 1200)]"

fun match_resolution :: "(int \<times> int) list \<Rightarrow> int \<Rightarrow> (int \<times> int) option" where
  "match_resolution [] image_data_size = None"
| "match_resolution ((w, h) # rest) image_data_size =
     (let expected_size = w * h * 3 in
      (if \<bar>expected_size - image_data_size\<bar> < 100 then Some (w, h)
       else match_resolution rest image_data_size))"

text \<open>
  Lines 82-87, the \<open>else\<close> of the loop. \<open>int(pixels ** 0.5)\<close> is the one floating-point
  computation of the decoder. For a negative \<open>pixels\<close> the power is a complex number and
  \<open>int\<close> raises \<open>TypeError\<close>. Otherwise the model takes the integer square root
  \<open>sqrt_nat\<close>, the floor of the real square root. This idealises the double-precision
  power: the two agree as long as the power is accurate to a unit in the last place and
  the pixel count is below \<open>2 ^ 50\<close>, which every buffer that fits in memory satisfies.
  \<open>pixels // width\<close> raises \<open>ZeroDivisionError\<close> when \<open>width\<close> is 0.
\<close>

fun sqrt_nat :: "nat \<Rightarrow> nat" where
  "sqrt_nat n =
     (if n < 2 then n
      else (let r = 2 * sqrt_nat (n div 4) in
            (if (r + 1) * (r + 1) \<le> n then r + 1 else r)))"

declare sqrt_nat.simps [simp del]

definition int_pow_half :: "int \<Rightarrow> exn + int" where
  "int_pow_half pixels =
     (if pixels < 0 then Inl TypeError else Inr (int (sqrt_nat (nat pixels))))"

definition floordiv :: "int \<Rightarrow> int \<Rightarrow> exn + int" where
  "floordiv a b = (if b = 0 then Inl ZeroDivisionError else Inr (a div b))"

definition fallback_resolution :: "int \<Rightarrow> exn + (int \<times> int)" where
  "fallback_resolution image_data_size =
     (let pixels = image_data_size div 3 in
      (case int_pow_half pixels of
         Inl e \<Rightarrow> Inl e
       | Inr width \<Rightarrow>
           (case floordiv pixels width of
              Inl e \<Rightarrow> Inl e
            | Inr height \<Rightarrow> Inr (width, height))))"

text \<open>
  The loop with its \<open>else\<close>. The \<open>width\<close> and \<open>height\<close> read from the header are
  assigned anew on both paths; the result is the pair \<open>(width, height)\<close>.
\<close>

definition resolve_dimensions :: "int \<Rightarrow> int \<Rightarrow> int \<Rightarrow> exn + (int \<times> int)" where
  "resolve_dimensions width height image_data_size =
     (case match_resolution common_resolutions image_data_size of
        Some (w, h) \<Rightarrow> Inr (w, h)
      | None \<Rightarrow> fallback_resolution image_data_size)"

text \<open>
  Lines 89-109: the payload slice \<open>payload_bytes[offset:]\<close> of lines 90-91, then the
  truncation, the reshape and the colour conversion. The returned array is modelled by its shape and its bytes in row-major
  order. \<open>reshape((height, width, 3))\<close> raises \<open>ValueError\<close> unless the array has
  exactly \<open>height * width * 3\<close> elements (the dimensions reaching it are positive);
  \<open>cv2.cvtColor(..., COLOR_RGB2BGR)\<close> swaps the first and third byte of every pixel.
\<close>

record image =
  shape_height :: int
  shape_width :: int
  pixel_bytes :: "byte list"

definition reshape :: "byte list \<Rightarrow> int \<Rightarrow> int \<Rightarrow> exn + byte list" where
  "reshape image_array height width =
     (if 0 \<le> height \<and> 0 \<le> width \<and> int (length image_array) = height * width * 3
      then Inr image_array else Inl ValueError)"

fun cvtColor_RGB2BGR :: "byte list \<Rightarrow> byte list" where
  "cvtColor_RGB2BGR (r # g # b # rest) = b # g # r # cvtColor_RGB2BGR rest"
| "cvtColor_RGB2BGR _ = []"

definition image_data_of :: "byte list \<Rightarrow> int \<Rightarrow> byte list" where
  "image_data_of payload_bytes rgb =
     (let offset = rgb + 5 + 1 + 4 in py_slice_from payload_bytes offset)"

definition extract_image :: "byte list \<Rightarrow> int \<Rightarrow> int \<Rightarrow> int \<Rightarrow> exn + image" where
  "extract_image payload_bytes rgb width height =
     (let image_data = image_data_of payload_bytes rgb;
          expected_pixels = height * width * 3;
          image_array = (if int (length image_data) > expected_pixels
                         then py_slice image_data 0 expected_pixels else image_data)
      in (case reshape image_array height width of
            Inl e \<Rightarrow> Inl e
          | Inr arr \<Rightarrow>
              Inr \<lparr>shape_height = height, shape_width = width,
                   pixel_bytes = cvtColor_RGB2BGR arr\<rparr>))"

definition parse_ros2_image_body :: "byte list \<Rightarrow> failure + image" where
  "parse_ros2_image_body payload_bytes =
     (case parse_header payload_bytes of
        Inl f \<Rightarrow> Inl f
      | Inr h \<Rightarrow>
          (let total_payload = int (length payload_bytes);
               image_data_size = total_payload - header_size (rgb8_pos h)
           in (case resolve_dimensions (width_field h) (height_field h) image_data_size of
                 Inl e \<Rightarrow> Inl (Raised e)
               | Inr (width, height) \<Rightarrow>
                   (case extract_image payload_bytes (rgb8_pos h) width height of
                      Inl e \<Rightarrow> Inl (Raised e)
                    | Inr image_bgr \<Rightarrow> Inr image_bgr))))"

text \<open>What the caller sees: the image, or \<open>None\<close> for every early return and exception.\<close>

definition parse_ros2_image :: "byte list \<Rightarrow> image option" where
  "parse_ros2_image payload =
     (case parse_ros2_image_body payload of Inl _ \<Rightarrow> None | Inr image_bgr \<Rightarrow> Some image_bgr)"

section \<open>Sample buffers\<close>

text \<open>
  A frame header in the layout the decoder expects: four bytes, the length prefix 7,
  \<open>camera\<close> and a terminator, height 2 and width 2, the length prefix 5, \<open>rgb8\<close> and a
  terminator, the endianness flag and the row step. \<open>rgb8\<close> starts at byte 27, so the
  pixel payload starts at byte 37, the end of these bytes.
\<close>

definition frame_hdr :: "byte list" where
  "frame_hdr =
     [0, 0, 0, 0, 7, 0, 0, 0, 0x63, 0x61, 0x6D, 0x65, 0x72, 0x61, 0,
      2, 0, 0, 0, 2, 0, 0, 0, 5, 0, 0, 0, 0x72, 0x67, 0x62, 0x38, 0,
      0, 6, 0, 0, 0]"

definition frame_hdr_fields :: header where
  "frame_hdr_fields =
     \<lparr>camera_pos = 8, frame_id_len = 7, height_field = 2, width_field = 2, rgb8_pos = 27\<rparr>"

text \<open>
  A 48-byte command whose six fields are a NaN, plus and minus infinity, 0.0, 0.0 and 1.0.
\<close>

definition twist_nan_inf :: "byte list" where
  "twist_nan_inf =
     [0, 0, 0, 0, 0, 0, 0xF8, 0x7F,  0, 0, 0, 0, 0, 0, 0xF0, 0x7F,
      0, 0, 0, 0, 0, 0, 0xF0, 0xFF,  0, 0, 0, 0, 0, 0, 0, 0,
      0, 0, 0, 0, 0, 0, 0, 0,        0, 0, 0, 0, 0, 0, 0xF0, 0x3F]"

section \<open>Properties of the byte-level helpers\<close>

lemma length_le_bytes [simp]: "length (le_bytes k n) = k"
  by (induction k arbitrary: n) simp_all

lemma le_value_le_bytes: "le_value (le_bytes k n) = n mod 256 ^ k"
proof (induction k arbitrary: n)
  case 0
  show ?case by simp
next
  case (Suc k)
  have "uint (word_of_int n :: byte) = n mod 256"
    by (simp add: uint_word_of_int)
  then show ?case
    using Suc.IH [of "n div 256"] zmod_zmult2_eq [of "256 ^ k" n 256] by simp
qed

lemma length_pack_d [simp]: "length (pack_d d) = 8"
  by (simp add: pack_d_def)

lemma le_value_pack_d: "le_value (pack_d d) = uint d"
proof -
  have "uint d mod 2 ^ 64 = uint d"
    using uint_lt2p [of d] by simp
  then show ?thesis
    using le_value_le_bytes [of 8 "uint d"] by (simp add: pack_d_def)
qed

lemma unpack_pack_d [simp]: "unpack_d (pack_d d) = d"
  by (simp add: unpack_d_def le_value_pack_d)

lemma pack_d_zero: "pack_d 0 = [0, 0, 0, 0, 0, 0, 0, 0]"
  by code_simp

lemma py_slice_nonneg:
  "0 \<le> i \<Longrightarrow> i \<le> j \<Longrightarrow> py_slice xs i j = take (nat (j - i)) (drop (nat i) xs)"
  by (auto simp: py_slice_def norm_index_def Let_def min_def nat_diff_distrib)

lemma parse_twist_body_48:
  assumes "length data = 48"
  shows "parse_twist_body data =
     Inr \<lparr>linear_x = unpack_d (take 8 data),
          linear_y = unpack_d (take 8 (drop 8 data)),
          linear_z = unpack_d (take 8 (drop 16 data)),
          angular_x = unpack_d (take 8 (drop 24 data)),
          angular_y = unpack_d (take 8 (drop 32 data)),
          angular_z = unpack_d (take 8 (drop 40 data))\<rparr>"
proof -
  have u1: "unpack_ddd (py_slice data 0 24) =
      Inr (unpack_d (take 8 data), unpack_d (take 8 (drop 8 data)), unpack_d (take 8 (drop 16 data)))"
    using assms by (simp add: py_slice_nonneg unpack_ddd_def take_drop)
  have u2: "unpack_ddd (py_slice data 24 48) =
      Inr (unpack_d (take 8 (drop 24 data)), unpack_d (take 8 (drop 32 data)),
           unpack_d (take 8 (drop 40 data)))"
    using assms by (simp add: py_slice_nonneg unpack_ddd_def take_drop)
  show ?thesis
    unfolding parse_twist_body_def u1 u2 using assms by simp
qed

lemma create_twist_body_eq:
  "create_twist_body lx az =
     Inr (pack_d lx @ pack_d 0 @ pack_d 0 @ pack_d 0 @ pack_d 0 @ pack_d az)"
proof -
  have r: "replicate 48 (0::byte) = replicate 24 0 @ replicate 24 0"
    by (simp add: replicate_add [symmetric])
  have r16: "replicate 16 (0::byte) = replicate 8 0 @ replicate 8 0"
    by (simp add: replicate_add [symmetric])
  have 1: "pack_into (replicate 48 0) 0 (pack_ddd lx 0 0) = Inr (pack_ddd lx 0 0 @ replicate 24 0)"
    by (simp add: pack_into_def pack_ddd_def)
  have 2: "pack_into (pack_ddd lx 0 0 @ replicate 24 0) 24 (pack_ddd 0 0 az)
            = Inr (pack_ddd lx 0 0 @ pack_ddd 0 0 az)"
    by (simp add: pack_into_def pack_ddd_def)
  show ?thesis
    by (simp add: create_twist_body_def 1 2) (simp add: pack_ddd_def)
qed

lemma create_twist_message_eq:
  "create_twist_message lx az =
     Some (pack_d lx @ pack_d 0 @ pack_d 0 @ pack_d 0 @ pack_d 0 @ pack_d az)"
  by (subst create_twist_message.simps) (simp add: create_twist_body_eq)

lemma parse_twist_body_short: "length data \<noteq> 48 \<Longrightarrow> parse_twist_body data = Inl Invalid_twist_message_size"
  by (simp add: parse_twist_body_def)

section \<open>The velocity command codec\<close>

text \<open>
  Claim C1. Round trip: for finite floats \<open>x\<close> and \<open>z\<close>, \<open>create_twist_message x z\<close>
  returns a buffer, \<open>parse_twist_message\<close> succeeds on it, and the decoded \<open>linear.x\<close>
  and \<open>angular.z\<close> are \<open>x\<close> and \<open>z\<close> bit for bit (equal bit patterns of finite
  floats are equal floats).
\<close>

theorem twist_round_trip:
  "is_finite x \<Longrightarrow> is_finite z \<Longrightarrow>
   \<exists>buf t. create_twist_message x z = Some buf \<and> parse_twist_message buf = Some t
     \<and> linear_x t = x \<and> angular_z t = z"
proof -
  let ?buf = "pack_d x @ pack_d 0 @ pack_d 0 @ pack_d 0 @ pack_d 0 @ pack_d z"
  have len: "length ?buf = 48" by simp
  have "parse_twist_message ?buf = Some
     \<lparr>linear_x = unpack_d (take 8 ?buf),
          linear_y = unpack_d (take 8 (drop 8 ?buf)),
          linear_z = unpack_d (take 8 (drop 16 ?buf)),
          angular_x = unpack_d (take 8 (drop 24 ?buf)),
          angular_y = unpack_d (take 8 (drop 32 ?buf)),
          angular_z = unpack_d (take 8 (drop 40 ?buf))\<rparr>"
    unfolding parse_twist_message_def parse_twist_body_48 [OF len] by simp
  moreover have "take 8 ?buf = pack_d x" by simp
  moreover have "take 8 (drop 40 ?buf) = pack_d z" by simp
  ultimately show ?thesis
    by (simp add: create_twist_message_eq)
qed

theorem twist_round_trip_witness:
  "is_finite 0x3FD3333333333333 \<and> is_finite 0x3FE0000000000000 \<and>
   (\<exists>buf t. create_twist_message 0x3FD3333333333333 0x3FE0000000000000 = Some buf
      \<and> parse_twist_message buf = Some t
      \<and> linear_x t = 0x3FD3333333333333 \<and> angular_z t = 0x3FE0000000000000)"
proof -
  have a: "is_finite 0x3FD3333333333333" by (simp add: is_finite_def)
  have b: "is_finite 0x3FE0000000000000" by (simp add: is_finite_def)
  show ?thesis using a b twist_round_trip [OF a b] by simp
qed

text \<open>
  Claim C6. \<open>parse_twist_message\<close> fails, at its size check and nowhere else, exactly
  when the buffer does not have 48 bytes; on 48 bytes it succeeds and returns the six
  little-endian doubles at offsets 0, 8, 16 (linear) and 24, 32, 40 (angular) as they are,
  whatever their value. The size check is the spec's \<open>MalformedLength\<close>.
\<close>

theorem parse_twist_message_contract:
  "(parse_twist_body data = Inl Invalid_twist_message_size \<longleftrightarrow> length data \<noteq> 48) \<and>
   (parse_twist_message data = None \<longleftrightarrow> length data \<noteq> 48) \<and>
   (length data = 48 \<longrightarrow>
      parse_twist_message data = Some
        \<lparr>linear_x = unpack_d (take 8 data),
         linear_y = unpack_d (take 8 (drop 8 data)),
         linear_z = unpack_d (take 8 (drop 16 data)),
         angular_x = unpack_d (take 8 (drop 24 data)),
         angular_y = unpack_d (take 8 (drop 32 data)),
         angular_z = unpack_d (take 8 (drop 40 data))\<rparr>)"
proof (cases "length data = 48")
  case True
  show ?thesis
    unfolding parse_twist_message_def parse_twist_body_48 [OF True] using True by simp
next
  case False
  show ?thesis
    unfolding parse_twist_message_def parse_twist_body_short [OF False] using False by simp
qed

theorem parse_twist_message_contract_witness:
  "parse_twist_body [] = Inl Invalid_twist_message_size \<and>
   parse_twist_body [1] = Inl Invalid_twist_message_size \<and>
   parse_twist_body (replicate 47 0) = Inl Invalid_twist_message_size \<and>
   parse_twist_body (replicate 49 0) = Inl Invalid_twist_message_size \<and>
   parse_twist_body (replicate 1000 0) = Inl Invalid_twist_message_size \<and>
   parse_twist_message (replicate 1000 0) = None \<and>
   length twist_nan_inf = 48 \<and>
   parse_twist_message twist_nan_inf = Some
     \<lparr>linear_x = 0x7FF8000000000000, linear_y = 0x7FF0000000000000,
      linear_z = 0xFFF0000000000000, angular_x = 0, angular_y = 0,
      angular_z = 0x3FF0000000000000\<rparr> \<and>
   \<not> is_finite 0x7FF8000000000000 \<and> \<not> is_finite 0x7FF0000000000000 \<and>
   \<not> is_finite 0xFFF0000000000000"
proof -
  have l: "length twist_nan_inf = 48" by (simp add: twist_nan_inf_def)
  have "parse_twist_message twist_nan_inf = Some
     \<lparr>linear_x = 0x7FF8000000000000, linear_y = 0x7FF0000000000000,
      linear_z = 0xFFF0000000000000, angular_x = 0, angular_y = 0,
      angular_z = 0x3FF0000000000000\<rparr>"
    using parse_twist_message_contract [of twist_nan_inf] l
    by (simp add: twist_nan_inf_def unpack_d_def)
  moreover have "parse_twist_body [] = Inl Invalid_twist_message_size"
    using parse_twist_message_contract [of "[]"] by simp
  moreover have "parse_twist_body [1] = Inl Invalid_twist_message_size"
    using parse_twist_message_contract [of "[1]"] by simp
  moreover have "parse_twist_body (replicate 47 0) = Inl Invalid_twist_message_size"
    using parse_twist_message_contract [of "replicate 47 0"] by simp
  moreover have "parse_twist_body (replicate 49 0) = Inl Invalid_twist_message_size"
    using parse_twist_message_contract [of "replicate 49 0"] by simp
  moreover have "parse_twist_body (replicate 1000 0) = Inl Invalid_twist_message_size
      \<and> parse_twist_message (replicate 1000 0) = None"
    using parse_twist_message_contract [of "replicate 1000 0"] by simp
  moreover have "\<not> is_finite 0x7FF8000000000000 \<and> \<not> is_finite 0x7FF0000000000000 \<and>
   \<not> is_finite 0xFFF0000000000000"
    by (simp add: is_finite_def)
  ultimately show ?thesis using l by simp
qed

text \<open>
  Claim C7. For all floats, \<open>create_twist_message\<close> returns 48 bytes: six consecutive
  8-byte little-endian doubles, linear x, y, z then angular x, y, z, where linear y, z and
  angular x, y are 0.0 (eight zero bytes each). Little-endian: the bytes, least significant
  first, are the base-256 digits of the 64-bit pattern.
\<close>

theorem create_twist_message_layout:
  "create_twist_message lx az =
     Some (pack_d lx @ pack_d 0 @ pack_d 0 @ pack_d 0 @ pack_d 0 @ pack_d az) \<and>
   length (pack_d lx @ pack_d 0 @ pack_d 0 @ pack_d 0 @ pack_d 0 @ pack_d az) = 48 \<and>
   length (pack_d lx) = 8 \<and> length (pack_d az) = 8 \<and>
   le_value (pack_d lx) = uint lx \<and> le_value (pack_d az) = uint az \<and>
   pack_d 0 = [0, 0, 0, 0, 0, 0, 0, 0]"
  by (simp add: create_twist_message_eq le_value_pack_d pack_d_zero)

section \<open>The frame decoder: helper facts\<close>

lemma sqrt_nat_bounds: "sqrt_nat n * sqrt_nat n \<le> n \<and> n < (sqrt_nat n + 1) * (sqrt_nat n + 1)"
proof (induction n rule: sqrt_nat.induct)
  case (1 n)
  show ?case
  proof (cases "n < 2")
    case True
    then have "sqrt_nat n = n" by (simp add: sqrt_nat.simps [of n])
    moreover have "n = 0 \<or> n = 1" using True by arith
    ultimately show ?thesis by auto
  next
    case False
    define s where "s = sqrt_nat (n div 4)"
    define q where "q = s * s"
    have ih: "q \<le> n div 4 \<and> n div 4 < (s + 1) * (s + 1)"
      using "1.IH" [OF False] by (simp add: s_def q_def)
    have e1: "(s + 1) * (s + 1) = q + 2 * s + 1" by (simp add: q_def algebra_simps)
    have e2: "(2 * s + 1) * (2 * s + 1) = 4 * q + 4 * s + 1" by (simp add: q_def algebra_simps)
    have e3: "(2 * s + 1 + 1) * (2 * s + 1 + 1) = 4 * q + 8 * s + 4" by (simp add: q_def algebra_simps)
    have e4: "(2 * s) * (2 * s) = 4 * q" by (simp add: q_def)
    have lo: "4 * q \<le> n" using ih by linarith
    have hi: "n < 4 * q + 8 * s + 4" using ih unfolding e1 by linarith
    show ?thesis
    proof (cases "(2 * s + 1) * (2 * s + 1) \<le> n")
      case True
      then have "sqrt_nat n = 2 * s + 1"
        using False by (simp add: sqrt_nat.simps [of n] s_def Let_def)
      then show ?thesis using True hi unfolding e3 [symmetric] by simp
    next
      case F2: False
      then have "sqrt_nat n = 2 * s"
        using False by (simp add: sqrt_nat.simps [of n] s_def Let_def)
      then show ?thesis using F2 lo unfolding e4 [symmetric] by simp
    qed
  qed
qed

lemma sqrt_nat_floor: "int (sqrt_nat n) = \<lfloor>sqrt (real n)\<rfloor>"
proof -
  let ?s = "sqrt_nat n"
  have "?s * ?s \<le> n" using sqrt_nat_bounds [of n] by simp
  then have "real (?s * ?s) \<le> real n" by (rule of_nat_mono)
  then have lo: "(real ?s)\<^sup>2 \<le> real n" by (simp add: power2_eq_square)
  have "n < (?s + 1) * (?s + 1)" using sqrt_nat_bounds [of n] by simp
  then have "real n < real ((?s + 1) * (?s + 1))" by (simp only: of_nat_less_iff)
  moreover have "real ((?s + 1) * (?s + 1)) = (real ?s + 1)\<^sup>2"
    by (simp add: power2_eq_square algebra_simps)
  ultimately have hi: "real n < (real ?s + 1)\<^sup>2" by (simp only:)
  have a: "real ?s \<le> sqrt (real n)"
    using lo by (rule real_le_rsqrt)
  have b: "sqrt (real n) < real ?s + 1"
    using hi by (intro real_less_lsqrt) simp_all
  have "\<lfloor>sqrt (real n)\<rfloor> = int ?s"
    using a b by (intro floor_unique) simp_all
  then show ?thesis by simp
qed

lemma sqrt_nat_pos: "0 < n \<Longrightarrow> 0 < sqrt_nat n"
  using sqrt_nat_bounds [of n] by (cases "sqrt_nat n = 0") auto

lemma sqrt_nat_le: "sqrt_nat n \<le> n"
proof (cases "sqrt_nat n = 0")
  case True then show ?thesis by simp
next
  case False
  then have "sqrt_nat n * 1 \<le> sqrt_nat n * sqrt_nat n" by (intro mult_le_mono2) simp
  then have "sqrt_nat n \<le> sqrt_nat n * sqrt_nat n" by (simp only: mult_1_right)
  moreover have "sqrt_nat n * sqrt_nat n \<le> n" using sqrt_nat_bounds [of n] by (rule conjunct1)
  ultimately show ?thesis by (rule le_trans)
qed

lemma sqrt_nat_52073: "sqrt_nat 52073 = 228"
  by (simp add: sqrt_nat.simps)

lemma no_match_156219: "match_resolution common_resolutions 156219 = None"
  by (simp add: common_resolutions_def)

lemma find_from_lower: "find_from sub bs i = - 1 \<or> i \<le> find_from sub bs i"
proof (induction bs arbitrary: i)
  case Nil
  show ?case by simp
next
  case (Cons b bs)
  show ?case using Cons.IH [of "i + 1"] by auto
qed

lemma find_from_none: "0 \<le> i \<Longrightarrow> find_from sub bs i = - 1 \<longleftrightarrow> \<not> sublist sub bs"
proof (induction bs arbitrary: i)
  case Nil
  then show ?case by auto
next
  case (Cons b bs)
  show ?case
  proof (cases "prefix sub (b # bs)")
    case True
    then have "sublist sub (b # bs)" by (simp add: sublist_Cons_right)
    then show ?thesis using True Cons.prems by simp
  next
    case False
    have "0 \<le> i + 1" using Cons.prems by simp
    from Cons.IH [OF this] show ?thesis
      using False by (simp add: sublist_Cons_right)
  qed
qed

lemma find_from_found:
  "find_from sub bs i \<noteq> - 1 \<Longrightarrow> 0 \<le> i \<Longrightarrow>
   prefix sub (drop (nat (find_from sub bs i - i)) bs)"
proof (induction bs arbitrary: i)
  case Nil
  then show ?case by (simp split: if_splits)
next
  case (Cons b bs)
  show ?case
  proof (cases "prefix sub (b # bs)")
    case True
    then show ?thesis by simp
  next
    case False
    then have eq: "find_from sub (b # bs) i = find_from sub bs (i + 1)" by simp
    then have ne: "find_from sub bs (i + 1) \<noteq> - 1" using Cons.prems by simp
    then have ge: "i + 1 \<le> find_from sub bs (i + 1)"
      using find_from_lower [of sub bs "i + 1"] by simp
    have "prefix sub (drop (nat (find_from sub bs (i + 1) - (i + 1))) bs)"
      using Cons.IH [OF ne] Cons.prems by simp
    moreover have "nat (find_from sub bs (i + 1) - i) = Suc (nat (find_from sub bs (i + 1) - (i + 1)))"
      using ge by simp
    ultimately show ?thesis unfolding eq by simp
  qed
qed

lemma find_bytes_none: "find_bytes bs sub = - 1 \<longleftrightarrow> \<not> sublist sub bs"
  by (simp add: find_bytes_def find_from_none)

lemma find_bytes_nonneg: "find_bytes bs sub \<noteq> - 1 \<Longrightarrow> 0 \<le> find_bytes bs sub"
  using find_from_lower [of sub bs 0] by (simp add: find_bytes_def)

lemma find_bytes_found:
  "find_bytes bs sub \<noteq> - 1 \<Longrightarrow> prefix sub (drop (nat (find_bytes bs sub)) bs)"
  using find_from_found [of sub bs 0] by (simp add: find_bytes_def)

lemma parse_header_Inr:
  "parse_header p = Inr h \<Longrightarrow>
   rgb8_pos h = find_bytes p (ascii ''rgb8'') \<and> rgb8_pos h \<noteq> - 1 \<and>
   camera_pos h = find_bytes p (ascii ''camera'') \<and> 4 \<le> camera_pos h"
  unfolding parse_header_def Let_def
  by (auto split: if_splits sum.splits)

lemma parse_header_rgb8_nonneg: "parse_header p = Inr h \<Longrightarrow> 0 \<le> rgb8_pos h"
  using parse_header_Inr [of p h] find_bytes_nonneg [of p "ascii ''rgb8''"] by simp

lemma parse_header_no_camera:
  "\<not> sublist (ascii ''camera'') p \<Longrightarrow> parse_header p = Inl Camera_not_found"
  unfolding parse_header_def Let_def by (simp add: find_bytes_none)

lemma parse_header_frame_hdr: "parse_header (frame_hdr @ rest) = Inr frame_hdr_fields"
  unfolding parse_header_def Let_def
  by (simp add: frame_hdr_def frame_hdr_fields_def find_bytes_def ascii_def py_slice_def
      norm_index_def unpack_I_def)

lemma match_resolution_Some:
  "match_resolution tbl s = Some (w, h) \<Longrightarrow> (w, h) \<in> set tbl \<and> \<bar>w * h * 3 - s\<bar> < 100"
proof (induction tbl)
  case Nil
  then show ?case by simp
next
  case (Cons c tbl)
  obtain w' h' where c: "c = (w', h')" by (cases c)
  show ?case
  proof (cases "\<bar>w' * h' * 3 - s\<bar> < 100")
    case True
    then show ?thesis using Cons.prems c by simp
  next
    case False
    then show ?thesis using Cons c by simp
  qed
qed

lemma match_resolution_first:
  "match_resolution tbl s = Some (w, h) \<longleftrightarrow>
     (\<exists>pre post. tbl = pre @ (w, h) # post \<and> \<bar>w * h * 3 - s\<bar> < 100 \<and>
        (\<forall>(w', h') \<in> set pre. \<not> \<bar>w' * h' * 3 - s\<bar> < 100))"
proof (induction tbl)
  case Nil
  show ?case by simp
next
  case (Cons c tbl)
  obtain w' h' where c: "c = (w', h')" by (cases c)
  show ?case
  proof (cases "\<bar>w' * h' * 3 - s\<bar> < 100")
    case True
    have "(\<exists>pre post. c # tbl = pre @ (w, h) # post \<and> \<bar>w * h * 3 - s\<bar> < 100 \<and>
        (\<forall>(w', h') \<in> set pre. \<not> \<bar>w' * h' * 3 - s\<bar> < 100)) \<longleftrightarrow> (w, h) = c"
    proof
      assume "\<exists>pre post. c # tbl = pre @ (w, h) # post \<and> \<bar>w * h * 3 - s\<bar> < 100 \<and>
        (\<forall>(w', h') \<in> set pre. \<not> \<bar>w' * h' * 3 - s\<bar> < 100)"
      then obtain pre post where p: "c # tbl = pre @ (w, h) # post"
        and q: "\<forall>(w', h') \<in> set pre. \<not> \<bar>w' * h' * 3 - s\<bar> < 100" by blast
      show "(w, h) = c"
      proof (cases pre)
        case Nil
        then show ?thesis using p by simp
      next
        case (Cons d pre')
        then have "d = c" using p by simp
        then have "c \<in> set pre" using Cons by simp
        then show ?thesis using q c True by auto
      qed
    next
      assume "(w, h) = c"
      then have "c # tbl = [] @ (w, h) # tbl \<and> \<bar>w * h * 3 - s\<bar> < 100" using c True by simp
      then show "\<exists>pre post. c # tbl = pre @ (w, h) # post \<and> \<bar>w * h * 3 - s\<bar> < 100 \<and>
        (\<forall>(w', h') \<in> set pre. \<not> \<bar>w' * h' * 3 - s\<bar> < 100)"
        by (intro exI [of _ "[]"] exI [of _ tbl]) simp
    qed
    moreover have "match_resolution (c # tbl) s = Some (w, h) \<longleftrightarrow> (w, h) = c"
      using True c by auto
    ultimately show ?thesis by simp
  next
    case False
    have "(\<exists>pre post. c # tbl = pre @ (w, h) # post \<and> \<bar>w * h * 3 - s\<bar> < 100 \<and>
        (\<forall>(w', h') \<in> set pre. \<not> \<bar>w' * h' * 3 - s\<bar> < 100)) \<longleftrightarrow>
        (\<exists>pre post. tbl = pre @ (w, h) # post \<and> \<bar>w * h * 3 - s\<bar> < 100 \<and>
        (\<forall>(w', h') \<in> set pre. \<not> \<bar>w' * h' * 3 - s\<bar> < 100))" (is "?L \<longleftrightarrow> ?R")
    proof
      assume ?L
      then obtain pre post where p: "c # tbl = pre @ (w, h) # post"
        and t: "\<bar>w * h * 3 - s\<bar> < 100"
        and q: "\<forall>(w', h') \<in> set pre. \<not> \<bar>w' * h' * 3 - s\<bar> < 100" by blast
      show ?R
      proof (cases pre)
        case Nil
        then have "c = (w, h)" using p by simp
        then show ?thesis using False c t by simp
      next
        case (Cons d pre')
        then have "tbl = pre' @ (w, h) # post" using p by simp
        moreover have "\<forall>(w', h') \<in> set pre'. \<not> \<bar>w' * h' * 3 - s\<bar> < 100"
          using q Cons by simp
        ultimately show ?thesis using t by blast
      qed
    next
      assume ?R
      then obtain pre post where p: "tbl = pre @ (w, h) # post"
        and t: "\<bar>w * h * 3 - s\<bar> < 100"
        and q: "\<forall>(w', h') \<in> set pre. \<not> \<bar>w' * h' * 3 - s\<bar> < 100" by blast
      have "c # tbl = (c # pre) @ (w, h) # post" using p by simp
      moreover have "\<forall>(w', h') \<in> set (c # pre). \<not> \<bar>w' * h' * 3 - s\<bar> < 100"
        using q c False by simp
      ultimately show ?L using t by blast
    qed
    moreover have "match_resolution (c # tbl) s = match_resolution tbl s"
      using False c by simp
    ultimately show ?thesis using Cons.IH by simp
  qed
qed

lemma common_resolutions_pos: "(w, h) \<in> set common_resolutions \<Longrightarrow> 0 < w \<and> 0 < h"
  by (auto simp: common_resolutions_def)

lemma three_not_dvd_two: "\<not> (3::nat) dvd Suc (Suc 0)"
  by (intro nat_dvd_not_less) simp_all

lemma cvtColor_length: "3 dvd length xs \<Longrightarrow> length (cvtColor_RGB2BGR xs) = length xs"
proof (induction xs rule: cvtColor_RGB2BGR.induct)
  case (1 r g b rest)
  have "length (r # g # b # rest) = length rest + 3" by simp
  then have "3 dvd length rest" using "1.prems" by (metis dvd_add_triv_right_iff)
  then show ?case using "1.IH" by simp
qed (simp_all add: three_not_dvd_two)

lemma fallback_neg: "s < 0 \<Longrightarrow> fallback_resolution s = Inl TypeError"
proof -
  assume "s < 0"
  then have "s div 3 < 0" by simp
  then show ?thesis by (simp add: fallback_resolution_def int_pow_half_def)
qed

lemma fallback_zero: "0 \<le> s \<Longrightarrow> s < 3 \<Longrightarrow> fallback_resolution s = Inl ZeroDivisionError"
proof -
  assume "0 \<le> s" "s < 3"
  then have "s div 3 = 0" by simp
  moreover have "sqrt_nat 0 = 0" by (simp add: sqrt_nat.simps)
  ultimately show ?thesis
    by (simp add: fallback_resolution_def int_pow_half_def floordiv_def)
qed

lemma fallback_ok:
  assumes "3 \<le> s"
  shows "fallback_resolution s =
           Inr (int (sqrt_nat (nat (s div 3))), (s div 3) div int (sqrt_nat (nat (s div 3))))"
    and "0 < int (sqrt_nat (nat (s div 3)))"
    and "0 < (s div 3) div int (sqrt_nat (nat (s div 3)))"
    and "((s div 3) div int (sqrt_nat (nat (s div 3)))) * int (sqrt_nat (nat (s div 3))) * 3 \<le> s"
proof -
  define px where "px = s div 3"
  define w where "w = int (sqrt_nat (nat px))"
  have px: "1 \<le> px" using assms by (simp add: px_def)
  then have "0 < nat px" by simp
  then have "0 < sqrt_nat (nat px)" by (rule sqrt_nat_pos)
  then show wpos: "0 < int (sqrt_nat (nat (s div 3)))" by (simp add: px_def)
  then have w0: "0 < w" by (simp add: w_def px_def)
  have "sqrt_nat (nat px) \<le> nat px" by (rule sqrt_nat_le)
  then have wle: "w \<le> px" using px by (simp add: w_def)
  show "fallback_resolution s =
           Inr (int (sqrt_nat (nat (s div 3))), (s div 3) div int (sqrt_nat (nat (s div 3))))"
    using px wpos by (simp add: fallback_resolution_def int_pow_half_def floordiv_def px_def Let_def)
  have "0 < px div w" using pos_imp_zdiv_pos_iff [OF w0, of px] wle by simp
  then show "0 < (s div 3) div int (sqrt_nat (nat (s div 3)))" by (simp add: px_def w_def)
  have "px div w * w + px mod w = px" by simp
  moreover have "0 \<le> px mod w" using w0 by simp
  ultimately have "px div w * w \<le> px" by linarith
  moreover have "px * 3 \<le> s" by (simp add: px_def)
  ultimately have "px div w * w * 3 \<le> s" by linarith
  then show "((s div 3) div int (sqrt_nat (nat (s div 3)))) * int (sqrt_nat (nat (s div 3))) * 3 \<le> s"
    by (simp add: px_def w_def)
qed

lemma resolve_matched:
  "match_resolution common_resolutions s = Some (w, h) \<Longrightarrow>
   resolve_dimensions w0 h0 s = Inr (w, h)"
  by (simp add: resolve_dimensions_def)

lemma resolve_unmatched:
  "match_resolution common_resolutions s = None \<Longrightarrow>
   resolve_dimensions w0 h0 s = fallback_resolution s"
  by (simp add: resolve_dimensions_def)

lemma resolve_pos:
  assumes "resolve_dimensions w0 h0 s = Inr (w, h)"
  shows "0 < w \<and> 0 < h"
proof (cases "match_resolution common_resolutions s")
  case (Some c)
  then have "c = (w, h)" using assms by (cases c) (simp add: resolve_dimensions_def)
  then have "(w, h) \<in> set common_resolutions"
    using Some match_resolution_Some [of common_resolutions s w h] by simp
  then show ?thesis by (rule common_resolutions_pos)
next
  case None
  then have f: "fallback_resolution s = Inr (w, h)" using assms by (simp add: resolve_unmatched)
  have "3 \<le> s"
  proof (rule ccontr)
    assume "\<not> 3 \<le> s"
    then have "fallback_resolution s = Inl TypeError \<or> fallback_resolution s = Inl ZeroDivisionError"
      using fallback_neg [of s] fallback_zero [of s] by (cases "s < 0") simp_all
    then show False using f by auto
  qed
  then show ?thesis using fallback_ok [of s] f by simp
qed

lemma image_data_of_eq:
  "0 \<le> rgb \<Longrightarrow> image_data_of p rgb = drop (nat (header_size rgb)) p"
  by (simp add: image_data_of_def py_slice_from_def norm_index_def header_size_def min_def Let_def)

lemma extract_image_ok:
  assumes "0 \<le> rgb" "0 < w" "0 < h" "h * w * 3 \<le> int (length p) - header_size rgb"
  shows "extract_image p rgb w h =
      Inr \<lparr>shape_height = h, shape_width = w,
           pixel_bytes = cvtColor_RGB2BGR (take (nat (h * w * 3)) (drop (nat (header_size rgb)) p))\<rparr>"
proof -
  let ?d = "drop (nat (header_size rgb)) p"
  have hs: "0 \<le> header_size rgb" using assms(1) by (simp add: header_size_def)
  have d: "image_data_of p rgb = ?d"
    using assms(1) by (rule image_data_of_eq)
  have e: "0 < h * w * 3" using assms(2,3) by simp
  have len: "int (length ?d) = int (length p) - header_size rgb"
    using hs assms(4) e by simp
  have tk: "(if int (length ?d) > h * w * 3 then py_slice ?d 0 (h * w * 3) else ?d)
      = take (nat (h * w * 3)) ?d"
  proof (cases "int (length ?d) > h * w * 3")
    case True
    then show ?thesis using e by (simp add: py_slice_def norm_index_def min_def)
  next
    case False
    then have "int (length ?d) = h * w * 3" using len assms(4) by linarith
    then have "length ?d = nat (h * w * 3)" by simp
    then show ?thesis using False by simp
  qed
  have "nat (h * w * 3) \<le> length ?d" using len assms(4) e by linarith
  then have "length (take (nat (h * w * 3)) ?d) = nat (h * w * 3)"
    by (simp only: length_take min_absorb2)
  then have tl: "int (length (take (nat (h * w * 3)) ?d)) = h * w * 3"
    using e by simp
  have rs: "reshape (take (nat (h * w * 3)) ?d) h w = Inr (take (nat (h * w * 3)) ?d)"
    unfolding reshape_def using tl assms(2,3) by simp
  show ?thesis
    unfolding extract_image_def Let_def d tk rs by simp
qed

lemma extract_image_short:
  assumes "0 \<le> rgb" "0 < w" "0 < h" "int (length p) - header_size rgb < h * w * 3"
  shows "extract_image p rgb w h = Inl ValueError"
proof -
  let ?d = "drop (nat (header_size rgb)) p"
  have hs: "0 \<le> header_size rgb" using assms(1) by (simp add: header_size_def)
  have d: "image_data_of p rgb = ?d"
    using assms(1) by (rule image_data_of_eq)
  have len: "int (length ?d) < h * w * 3"
    using hs assms(2,3,4) by (cases "nat (header_size rgb) \<le> length p") simp_all
  then have tk: "(if int (length ?d) > h * w * 3 then py_slice ?d 0 (h * w * 3) else ?d) = ?d"
    by simp
  have rs: "reshape ?d h w = Inl ValueError"
    unfolding reshape_def using len by simp
  show ?thesis
    unfolding extract_image_def Let_def d tk rs by simp
qed

lemma body_after_header:
  assumes "parse_header p = Inr hdr"
  shows "parse_ros2_image_body p =
     (case resolve_dimensions (width_field hdr) (height_field hdr)
             (int (length p) - header_size (rgb8_pos hdr)) of
        Inl e \<Rightarrow> Inl (Raised e)
      | Inr (w, h) \<Rightarrow>
          (case extract_image p (rgb8_pos hdr) w h of
             Inl e \<Rightarrow> Inl (Raised e)
           | Inr image_bgr \<Rightarrow> Inr image_bgr))"
  unfolding parse_ros2_image_body_def assms by (simp add: Let_def)

lemma find_bytes_bound:
  assumes "find_bytes bs sub \<noteq> - 1" "sub \<noteq> []"
  shows "find_bytes bs sub + int (length sub) \<le> int (length bs)"
proof -
  let ?n = "nat (find_bytes bs sub)"
  have ge: "0 \<le> find_bytes bs sub" using assms(1) by (rule find_bytes_nonneg)
  have "prefix sub (drop ?n bs)" using assms(1) by (rule find_bytes_found)
  then have "length sub \<le> length (drop ?n bs)" by (rule prefix_length_le)
  then have "length sub \<le> length bs - ?n" by simp
  moreover have "0 < length sub" using assms(2) by simp
  ultimately have "?n + length sub \<le> length bs" by linarith
  then show ?thesis using ge by linarith
qed

lemma decode_enough:
  assumes "parse_header p = Inr hdr"
    and "resolve_dimensions (width_field hdr) (height_field hdr)
           (int (length p) - header_size (rgb8_pos hdr)) = Inr (w, h)"
    and "h * w * 3 \<le> int (length p) - header_size (rgb8_pos hdr)"
  shows "parse_ros2_image_body p =
     Inr \<lparr>shape_height = h, shape_width = w,
          pixel_bytes = cvtColor_RGB2BGR
            (take (nat (h * w * 3)) (drop (nat (header_size (rgb8_pos hdr))) p))\<rparr>"
proof -
  have r: "0 \<le> rgb8_pos hdr" using assms(1) by (rule parse_header_rgb8_nonneg)
  have pos: "0 < w \<and> 0 < h" using assms(2) by (rule resolve_pos)
  have "extract_image p (rgb8_pos hdr) w h =
      Inr \<lparr>shape_height = h, shape_width = w,
           pixel_bytes = cvtColor_RGB2BGR
             (take (nat (h * w * 3)) (drop (nat (header_size (rgb8_pos hdr))) p))\<rparr>"
    using r pos assms(3) by (intro extract_image_ok) simp_all
  then show ?thesis
    unfolding body_after_header [OF assms(1)] assms(2) by simp
qed

lemma decode_short:
  assumes "parse_header p = Inr hdr"
    and "resolve_dimensions (width_field hdr) (height_field hdr)
           (int (length p) - header_size (rgb8_pos hdr)) = Inr (w, h)"
    and "int (length p) - header_size (rgb8_pos hdr) < h * w * 3"
  shows "parse_ros2_image_body p = Inl (Raised ValueError)"
proof -
  have r: "0 \<le> rgb8_pos hdr" using assms(1) by (rule parse_header_rgb8_nonneg)
  have pos: "0 < w \<and> 0 < h" using assms(2) by (rule resolve_pos)
  have "extract_image p (rgb8_pos hdr) w h = Inl ValueError"
    using r pos assms(3) by (intro extract_image_short) simp_all
  then show ?thesis
    unfolding body_after_header [OF assms(1)] assms(2) by simp
qed

lemma decode_resolve_failed:
  assumes "parse_header p = Inr hdr"
    and "resolve_dimensions (width_field hdr) (height_field hdr)
           (int (length p) - header_size (rgb8_pos hdr)) = Inl e"
  shows "parse_ros2_image_body p = Inl (Raised e)"
  unfolding body_after_header [OF assms(1)] assms(2) by simp

lemma body_Inr_elim:
  assumes "parse_ros2_image_body p = Inr img"
  shows "\<exists>hdr w h. parse_header p = Inr hdr \<and>
      resolve_dimensions (width_field hdr) (height_field hdr)
           (int (length p) - header_size (rgb8_pos hdr)) = Inr (w, h) \<and>
      0 < w \<and> 0 < h \<and> h * w * 3 \<le> int (length p) - header_size (rgb8_pos hdr) \<and>
      img = \<lparr>shape_height = h, shape_width = w,
          pixel_bytes = cvtColor_RGB2BGR
            (take (nat (h * w * 3)) (drop (nat (header_size (rgb8_pos hdr))) p))\<rparr>"
proof (cases "parse_header p")
  case (Inl f)
  then show ?thesis using assms by (simp add: parse_ros2_image_body_def)
next
  case (Inr hdr)
  let ?n = "int (length p) - header_size (rgb8_pos hdr)"
  show ?thesis
  proof (cases "resolve_dimensions (width_field hdr) (height_field hdr) ?n")
    case (Inl e)
    then show ?thesis using assms decode_resolve_failed [OF Inr Inl] by simp
  next
    case res: (Inr wh)
    obtain w h where wh: "wh = (w, h)" by (cases wh)
    have res': "resolve_dimensions (width_field hdr) (height_field hdr) ?n = Inr (w, h)"
      using res wh by simp
    have pos: "0 < w \<and> 0 < h" using res' by (rule resolve_pos)
    show ?thesis
    proof (cases "h * w * 3 \<le> ?n")
      case True
      then show ?thesis using decode_enough [OF Inr res' True] assms Inr res' pos by auto
    next
      case False
      then have "?n < h * w * 3" by simp
      then show ?thesis using decode_short [OF Inr res'] assms by simp
    qed
  qed
qed

lemma parse_ros2_image_Some: "parse_ros2_image p = Some img \<longleftrightarrow> parse_ros2_image_body p = Inr img"
  by (simp add: parse_ros2_image_def split: sum.splits)

lemma parse_ros2_image_None: "parse_ros2_image p = None \<longleftrightarrow> (\<exists>f. parse_ros2_image_body p = Inl f)"
  by (simp add: parse_ros2_image_def split: sum.splits)

lemma no_match_small: "n < 3 \<Longrightarrow> match_resolution common_resolutions n = None"
  by (simp add: common_resolutions_def)

lemma frame_hdr_length: "length frame_hdr = 37"
  by (simp add: frame_hdr_def)

lemma frame_hdr_rgb8: "rgb8_pos frame_hdr_fields = 27"
  by (simp add: frame_hdr_fields_def)

lemma hs27: "header_size 27 = 37"
  by (simp add: header_size_def)

section \<open>The frame decoder\<close>

text \<open>
  Claim C8. On a buffer that does not contain \<open>camera\<close> the decoder stops at its first
  check, the \<open>return None\<close> of lines 33-35 (the spec's \<open>MarkerNotFound("frame_id")\<close>):
  no other early return and no exception comes first, whatever else the buffer holds.
\<close>

theorem missing_camera_marker:
  "\<not> sublist (ascii ''camera'') p \<Longrightarrow>
   parse_ros2_image_body p = Inl Camera_not_found \<and> parse_ros2_image p = None"
proof -
  assume "\<not> sublist (ascii ''camera'') p"
  then have "parse_header p = Inl Camera_not_found" by (rule parse_header_no_camera)
  then show ?thesis
    by (simp add: parse_ros2_image_def parse_ros2_image_body_def)
qed

theorem missing_camera_marker_witness:
  "\<not> sublist (ascii ''camera'') [0x72, 0x67, 0x62, 0x38, 0, 0, 6, 0, 0, 0, 1, 2, 3] \<and>
   parse_ros2_image_body [0x72, 0x67, 0x62, 0x38, 0, 0, 6, 0, 0, 0, 1, 2, 3] = Inl Camera_not_found \<and>
   parse_ros2_image [0x72, 0x67, 0x62, 0x38, 0, 0, 6, 0, 0, 0, 1, 2, 3] = None \<and>
   parse_ros2_image_body [] = Inl Camera_not_found"
proof -
  have a: "\<not> sublist (ascii ''camera'') [0x72, 0x67, 0x62, 0x38, 0, 0, 6, 0, 0, 0, 1, 2, 3]"
    by (simp add: ascii_def sublist_Cons_right)
  have b: "\<not> sublist (ascii ''camera'') []"
    by (simp add: ascii_def)
  show ?thesis
    using a missing_camera_marker [OF a] missing_camera_marker [OF b] by simp
qed

text \<open>
  Claim C3. Once the header is read and \<open>n\<close> is the raw payload size, the table is the
  eight listed pairs in that order, the scan returns the first pair \<open>(w, h)\<close> with
  \<open>\<bar>w * h * 3 - n\<bar> < 100\<close> (no pair before it is within tolerance), that pair replaces
  the dimensions read from the header, and for \<open>n = 640 * 480 * 3\<close> the decoded image is
  640 wide and 480 high whatever the header fields say.
\<close>

theorem resolution_reconciliation:
  assumes "parse_header p = Inr hdr"
    and "n = int (length p) - header_size (rgb8_pos hdr)"
  shows "common_resolutions =
           [(640, 480), (800, 600), (1024, 768), (1280, 720), (1280, 960),
            (1920, 1080), (1280, 1024), (1600, 1200)] \<and>
         (\<forall>w h. match_resolution common_resolutions n = Some (w, h) \<longleftrightarrow>
            (\<exists>pre post. common_resolutions = pre @ (w, h) # post \<and> \<bar>w * h * 3 - n\<bar> < 100 \<and>
               (\<forall>(w', h') \<in> set pre. \<not> \<bar>w' * h' * 3 - n\<bar> < 100))) \<and>
         (\<forall>w h. match_resolution common_resolutions n = Some (w, h) \<longrightarrow>
            resolve_dimensions (width_field hdr) (height_field hdr) n = Inr (w, h) \<and>
            (w * h * 3 \<le> n \<longrightarrow>
               (\<exists>img. parse_ros2_image p = Some img \<and> shape_width img = w \<and> shape_height img = h))) \<and>
         (n = 640 * 480 * 3 \<longrightarrow>
            (\<exists>img. parse_ros2_image p = Some img \<and> shape_width img = 640 \<and> shape_height img = 480))"
proof -
  have adopt: "resolve_dimensions (width_field hdr) (height_field hdr) n = Inr (w, h) \<and>
            (w * h * 3 \<le> n \<longrightarrow>
               (\<exists>img. parse_ros2_image p = Some img \<and> shape_width img = w \<and> shape_height img = h))"
    if m: "match_resolution common_resolutions n = Some (w, h)" for w h
  proof -
    have r: "resolve_dimensions (width_field hdr) (height_field hdr) n = Inr (w, h)"
      using m by (rule resolve_matched)
    have "\<exists>img. parse_ros2_image p = Some img \<and> shape_width img = w \<and> shape_height img = h"
      if le: "w * h * 3 \<le> n"
    proof -
      have le': "h * w * 3 \<le> int (length p) - header_size (rgb8_pos hdr)"
        using le assms(2) by (simp add: mult.commute)
      show ?thesis
        using decode_enough [OF assms(1) r [unfolded assms(2)] le']
        by (simp add: parse_ros2_image_Some)
    qed
    then show ?thesis using r by simp
  qed
  have "match_resolution common_resolutions (640 * 480 * 3) = Some (640, 480)"
    by (simp add: common_resolutions_def)
  then have vga: "n = 640 * 480 * 3 \<longrightarrow>
            (\<exists>img. parse_ros2_image p = Some img \<and> shape_width img = 640 \<and> shape_height img = 480)"
    using adopt [of 640 480] by simp
  have tbl: "common_resolutions =
           [(640, 480), (800, 600), (1024, 768), (1280, 720), (1280, 960),
            (1920, 1080), (1280, 1024), (1600, 1200)]"
    by (simp add: common_resolutions_def)
  have first: "\<forall>w h. match_resolution common_resolutions n = Some (w, h) \<longleftrightarrow>
            (\<exists>pre post. common_resolutions = pre @ (w, h) # post \<and> \<bar>w * h * 3 - n\<bar> < 100 \<and>
               (\<forall>(w', h') \<in> set pre. \<not> \<bar>w' * h' * 3 - n\<bar> < 100))"
    by (intro allI) (rule match_resolution_first)
  have ad: "\<forall>w h. match_resolution common_resolutions n = Some (w, h) \<longrightarrow>
            resolve_dimensions (width_field hdr) (height_field hdr) n = Inr (w, h) \<and>
            (w * h * 3 \<le> n \<longrightarrow>
               (\<exists>img. parse_ros2_image p = Some img \<and> shape_width img = w \<and> shape_height img = h))"
    by (intro allI impI) (rule adopt)
  show ?thesis
    by (intro conjI) (rule tbl, rule first, rule ad, rule vga)
qed

theorem resolution_reconciliation_witness:
  "parse_header (frame_hdr @ replicate 921600 0) = Inr frame_hdr_fields \<and>
   width_field frame_hdr_fields = 2 \<and> height_field frame_hdr_fields = 2 \<and>
   (\<exists>img. parse_ros2_image (frame_hdr @ replicate 921600 0) = Some img \<and>
      shape_width img = 640 \<and> shape_height img = 480)"
proof -
  have h: "parse_header (frame_hdr @ replicate 921600 0) = Inr frame_hdr_fields"
    by (rule parse_header_frame_hdr)
  have n: "(640 * 480 * 3 :: int) =
      int (length (frame_hdr @ replicate 921600 0)) - header_size (rgb8_pos frame_hdr_fields)"
    by (simp add: frame_hdr_length frame_hdr_rgb8 hs27)
  have "\<exists>img. parse_ros2_image (frame_hdr @ replicate 921600 0) = Some img \<and>
      shape_width img = 640 \<and> shape_height img = 480"
    using resolution_reconciliation [OF h n, THEN conjunct2, THEN conjunct2, THEN conjunct2]
    by simp
  then show ?thesis using h by (simp add: frame_hdr_fields_def)
qed

lemma decode_enough_n:
  assumes "parse_header p = Inr hdr"
    and "n = int (length p) - header_size (rgb8_pos hdr)"
    and "resolve_dimensions (width_field hdr) (height_field hdr) n = Inr (w, h)"
    and "h * w * 3 \<le> n"
  shows "parse_ros2_image_body p =
     Inr \<lparr>shape_height = h, shape_width = w,
          pixel_bytes = cvtColor_RGB2BGR
            (take (nat (h * w * 3)) (drop (nat (header_size (rgb8_pos hdr))) p))\<rparr>"
  using assms(1,3,4) unfolding assms(2) by (rule decode_enough)

lemma decode_resolve_failed_n:
  assumes "parse_header p = Inr hdr"
    and "n = int (length p) - header_size (rgb8_pos hdr)"
    and "resolve_dimensions (width_field hdr) (height_field hdr) n = Inl e"
  shows "parse_ros2_image_body p = Inl (Raised e)"
  using assms(1,3) unfolding assms(2) by (rule decode_resolve_failed)

lemma decode_tiny:
  assumes "parse_header p = Inr hdr"
    and "n = int (length p) - header_size (rgb8_pos hdr)"
    and "n < 3"
  shows "parse_ros2_image_body p = Inl (Raised (if n < 0 then TypeError else ZeroDivisionError))"
proof -
  have "resolve_dimensions (width_field hdr) (height_field hdr) n = fallback_resolution n"
    using assms(3) by (intro resolve_unmatched no_match_small)
  moreover have "fallback_resolution n = Inl (if n < 0 then TypeError else ZeroDivisionError)"
    using assms(3) fallback_neg [of n] fallback_zero [of n] by (cases "n < 0") simp_all
  ultimately have "resolve_dimensions (width_field hdr) (height_field hdr) n =
      Inl (if n < 0 then TypeError else ZeroDivisionError)" by simp
  then show ?thesis
    by (rule decode_resolve_failed_n [OF assms(1,2)])
qed

lemma decode_fallback:
  assumes "parse_header p = Inr hdr"
    and "n = int (length p) - header_size (rgb8_pos hdr)"
    and "match_resolution common_resolutions n = None"
    and "3 \<le> n"
  shows "\<exists>img. parse_ros2_image p = Some img \<and>
           shape_width img = int (sqrt_nat (nat (n div 3))) \<and>
           shape_height img = (n div 3) div int (sqrt_nat (nat (n div 3)))"
proof -
  let ?w = "int (sqrt_nat (nat (n div 3)))"
  let ?h = "(n div 3) div ?w"
  have r: "resolve_dimensions (width_field hdr) (height_field hdr) n = Inr (?w, ?h)"
    using resolve_unmatched [OF assms(3)] fallback_ok(1) [OF assms(4)] by simp
  have le: "?h * ?w * 3 \<le> n"
    using assms(4) by (rule fallback_ok(4))
  show ?thesis
    using decode_enough_n [OF assms(1,2) r le]
    by (simp add: parse_ros2_image_Some)
qed

text \<open>
  Claim C4. When no table entry is within tolerance the dimensions are those of the
  fallback: with \<open>pixels = n div 3\<close>, the width is \<open>\<lfloor>sqrt pixels\<rfloor>\<close> and the height is
  \<open>pixels div width\<close>. From 3 payload bytes on the decode succeeds with these dimensions;
  below, the fallback raises and the decode returns \<open>None\<close>. For \<open>301 * 173 * 3\<close> bytes
  the width is \<open>\<lfloor>sqrt 52073\<rfloor> = 228\<close>.
\<close>

theorem resolution_fallback:
  assumes "parse_header p = Inr hdr"
    and "n = int (length p) - header_size (rgb8_pos hdr)"
    and "match_resolution common_resolutions n = None"
  shows "resolve_dimensions (width_field hdr) (height_field hdr) n = fallback_resolution n \<and>
         (3 \<le> n \<longrightarrow>
            (\<exists>img. parse_ros2_image p = Some img \<and>
               shape_width img = \<lfloor>sqrt (real_of_int (n div 3))\<rfloor> \<and>
               shape_height img = (n div 3) div shape_width img)) \<and>
         (n < 3 \<longrightarrow> parse_ros2_image p = None)"
proof -
  have a: "resolve_dimensions (width_field hdr) (height_field hdr) n = fallback_resolution n"
    using assms(3) by (rule resolve_unmatched)
  have b: "\<exists>img. parse_ros2_image p = Some img \<and>
               shape_width img = \<lfloor>sqrt (real_of_int (n div 3))\<rfloor> \<and>
               shape_height img = (n div 3) div shape_width img" if "3 \<le> n"
  proof -
    have "0 \<le> n div 3" using that by simp
    then have "real (nat (n div 3)) = real_of_int (n div 3)" by simp
    then have "int (sqrt_nat (nat (n div 3))) = \<lfloor>sqrt (real_of_int (n div 3))\<rfloor>"
      using sqrt_nat_floor [of "nat (n div 3)"] by simp
    then show ?thesis
      using decode_fallback [OF assms that] by auto
  qed
  have c: "parse_ros2_image p = None" if "n < 3"
    using decode_tiny [OF assms(1,2) that] by (simp add: parse_ros2_image_None)
  show ?thesis using a b c by blast
qed

theorem resolution_fallback_witness:
  "parse_header (frame_hdr @ replicate 156219 0) = Inr frame_hdr_fields \<and>
   int (length (frame_hdr @ replicate 156219 0)) - header_size (rgb8_pos frame_hdr_fields)
     = 301 * 173 * 3 \<and>
   match_resolution common_resolutions (301 * 173 * 3) = None \<and>
   \<lfloor>sqrt (real_of_int ((301 * 173 * 3) div 3))\<rfloor> = 228 \<and>
   (\<exists>img. parse_ros2_image (frame_hdr @ replicate 156219 0) = Some img \<and>
      shape_width img = 228 \<and> shape_height img = 228)"
proof -
  have h: "parse_header (frame_hdr @ replicate 156219 0) = Inr frame_hdr_fields"
    by (rule parse_header_frame_hdr)
  have n: "(156219 :: int) =
      int (length (frame_hdr @ replicate 156219 0)) - header_size (rgb8_pos frame_hdr_fields)"
    by (simp add: frame_hdr_length frame_hdr_rgb8 hs27)
  have m: "match_resolution common_resolutions 156219 = None"
    by (rule no_match_156219)
  have fl: "\<lfloor>sqrt (real_of_int 52073)\<rfloor> = 228"
    using sqrt_nat_floor [of 52073] by (simp add: sqrt_nat_52073)
  have "\<exists>img. parse_ros2_image (frame_hdr @ replicate 156219 0) = Some img \<and>
      shape_width img = 228 \<and> shape_height img = 228"
    using resolution_fallback [OF h n m, THEN conjunct2, THEN conjunct1] fl
    by auto
  then show ?thesis using h n [symmetric] m fl by simp
qed

text \<open>
  Claim C10. With fewer than 3 payload bytes no table entry matches and the decode
  returns \<open>None\<close>: for 0, 1 or 2 bytes the pixel count is 0, the width is 0 and the
  division for the height raises \<open>ZeroDivisionError\<close>; when the header runs past the end
  of the buffer the pixel count is negative and \<open>int\<close> of the complex power raises
  \<open>TypeError\<close>. No decode ever returns an image of width 0 or height 0.
\<close>

theorem tiny_payload_fails:
  assumes "parse_header p = Inr hdr"
    and "n = int (length p) - header_size (rgb8_pos hdr)"
    and "n < 3"
  shows "match_resolution common_resolutions n = None \<and>
         parse_ros2_image p = None \<and>
         (0 \<le> n \<longrightarrow> n div 3 = 0 \<and> int_pow_half (n div 3) = Inr 0 \<and>
            floordiv (n div 3) 0 = Inl ZeroDivisionError \<and>
            parse_ros2_image_body p = Inl (Raised ZeroDivisionError)) \<and>
         (n < 0 \<longrightarrow> parse_ros2_image_body p = Inl (Raised TypeError)) \<and>
         (\<forall>q img. parse_ros2_image q = Some img \<longrightarrow>
            0 < shape_width img \<and> 0 < shape_height img)"
proof -
  have a: "match_resolution common_resolutions n = None"
    using assms(3) by (rule no_match_small)
  have body: "parse_ros2_image_body p = Inl (Raised (if n < 0 then TypeError else ZeroDivisionError))"
    using assms by (rule decode_tiny)
  then have b: "parse_ros2_image p = None" by (simp add: parse_ros2_image_None)
  have c: "n div 3 = 0 \<and> int_pow_half (n div 3) = Inr 0 \<and>
            floordiv (n div 3) 0 = Inl ZeroDivisionError \<and>
            parse_ros2_image_body p = Inl (Raised ZeroDivisionError)" if "0 \<le> n"
  proof -
    have "n div 3 = 0" using that assms(3) by simp
    moreover have "sqrt_nat 0 = 0" by (simp add: sqrt_nat.simps)
    ultimately show ?thesis using body that by (simp add: int_pow_half_def floordiv_def)
  qed
  have d: "parse_ros2_image_body p = Inl (Raised TypeError)" if "n < 0"
    using body that by simp
  have e: "0 < shape_width img \<and> 0 < shape_height img" if "parse_ros2_image q = Some img" for q img
  proof -
    have "parse_ros2_image_body q = Inr img" using that by (simp add: parse_ros2_image_Some)
    from body_Inr_elim [OF this] show ?thesis by auto
  qed
  show ?thesis using a b c d e by blast
qed

theorem tiny_payload_fails_witness:
  "parse_header (frame_hdr @ [1, 2]) = Inr frame_hdr_fields \<and>
   int (length (frame_hdr @ [1, 2])) - header_size (rgb8_pos frame_hdr_fields) = 2 \<and>
   parse_ros2_image (frame_hdr @ [1, 2]) = None \<and>
   parse_ros2_image_body (frame_hdr @ [1, 2]) = Inl (Raised ZeroDivisionError)"
proof -
  have h: "parse_header (frame_hdr @ [1, 2]) = Inr frame_hdr_fields"
    by (rule parse_header_frame_hdr)
  have n: "(2 :: int) =
      int (length (frame_hdr @ [1, 2])) - header_size (rgb8_pos frame_hdr_fields)"
    by (simp add: frame_hdr_length frame_hdr_rgb8 hs27)
  have l: "(2 :: int) < 3" by simp
  have "parse_ros2_image (frame_hdr @ [1, 2]) = None \<and>
   parse_ros2_image_body (frame_hdr @ [1, 2]) = Inl (Raised ZeroDivisionError)"
    using tiny_payload_fails [OF h n l] by simp
  then show ?thesis using h n [symmetric] by simp
qed

lemma image_data_length_ge:
  "0 \<le> rgb \<Longrightarrow> int (length p) - header_size rgb \<le> int (length (image_data_of p rgb))"
proof -
  assume r: "0 \<le> rgb"
  then have "0 \<le> header_size rgb" by (simp add: header_size_def)
  then have "int (length p) - header_size rgb \<le> int (length p - nat (header_size rgb))"
    by linarith
  then show ?thesis using r by (simp add: image_data_of_eq)
qed

lemma image_data_length_eq:
  "0 \<le> rgb \<Longrightarrow> header_size rgb \<le> int (length p) \<Longrightarrow>
   int (length (image_data_of p rgb)) = int (length p) - header_size rgb"
proof -
  assume "0 \<le> rgb" "header_size rgb \<le> int (length p)"
  moreover from this have "0 \<le> header_size rgb" by (simp add: header_size_def)
  ultimately show ?thesis by (simp add: image_data_of_eq)
qed

lemma pixel_bytes_of_image:
  assumes "parse_ros2_image p = Some img"
  shows "\<exists>hdr. parse_header p = Inr hdr \<and>
      0 < shape_width img \<and> 0 < shape_height img \<and>
      shape_height img * shape_width img * 3 \<le> int (length p) - header_size (rgb8_pos hdr) \<and>
      pixel_bytes img = cvtColor_RGB2BGR
        (take (nat (shape_height img * shape_width img * 3)) (image_data_of p (rgb8_pos hdr)))"
proof -
  have "parse_ros2_image_body p = Inr img" using assms by (simp add: parse_ros2_image_Some)
  from body_Inr_elim [OF this] obtain hdr w h where
    hdr: "parse_header p = Inr hdr" and pos: "0 < w" "0 < h"
    and le: "h * w * 3 \<le> int (length p) - header_size (rgb8_pos hdr)"
    and img: "img = \<lparr>shape_height = h, shape_width = w,
          pixel_bytes = cvtColor_RGB2BGR
            (take (nat (h * w * 3)) (drop (nat (header_size (rgb8_pos hdr))) p))\<rparr>"
    by blast
  have "0 \<le> rgb8_pos hdr" using hdr by (rule parse_header_rgb8_nonneg)
  then have "image_data_of p (rgb8_pos hdr) = drop (nat (header_size (rgb8_pos hdr))) p"
    by (rule image_data_of_eq)
  then show ?thesis using hdr pos le img by auto
qed

text \<open>
  Claim C5. A decoded image has exactly \<open>width * height * 3\<close> pixel bytes: they are the
  first \<open>width * height * 3\<close> bytes of the payload slice (colour-swapped), so whatever
  follows them is dropped; and when the payload slice is shorter than \<open>width * height * 3\<close>
  the reshape raises \<open>ValueError\<close> (the spec's \<open>InsufficientPayload\<close>) and the decode
  returns \<open>None\<close>, never a partial image.
\<close>

theorem pixel_slice_exact:
  "(\<forall>img. parse_ros2_image p = Some img \<longrightarrow>
      int (length (pixel_bytes img)) = shape_width img * shape_height img * 3 \<and>
      (\<exists>hdr. parse_header p = Inr hdr \<and>
         shape_width img * shape_height img * 3 \<le> int (length (image_data_of p (rgb8_pos hdr))) \<and>
         pixel_bytes img = cvtColor_RGB2BGR
           (take (nat (shape_width img * shape_height img * 3))
              (image_data_of p (rgb8_pos hdr))))) \<and>
   (\<forall>hdr w h. parse_header p = Inr hdr \<and>
      resolve_dimensions (width_field hdr) (height_field hdr)
        (int (length p) - header_size (rgb8_pos hdr)) = Inr (w, h) \<and>
      int (length (image_data_of p (rgb8_pos hdr))) < w * h * 3 \<longrightarrow>
      parse_ros2_image_body p = Inl (Raised ValueError) \<and> parse_ros2_image p = None)"
proof -
  have a: "int (length (pixel_bytes img)) = shape_width img * shape_height img * 3 \<and>
      (\<exists>hdr. parse_header p = Inr hdr \<and>
         shape_width img * shape_height img * 3 \<le> int (length (image_data_of p (rgb8_pos hdr))) \<and>
         pixel_bytes img = cvtColor_RGB2BGR
           (take (nat (shape_width img * shape_height img * 3))
              (image_data_of p (rgb8_pos hdr))))"
    if s: "parse_ros2_image p = Some img" for img
  proof -
    let ?e = "shape_width img * shape_height img * 3"
    from pixel_bytes_of_image [OF s] obtain hdr where
      hdr: "parse_header p = Inr hdr" and pos: "0 < shape_width img" "0 < shape_height img"
      and le: "shape_height img * shape_width img * 3 \<le> int (length p) - header_size (rgb8_pos hdr)"
      and px: "pixel_bytes img = cvtColor_RGB2BGR
        (take (nat (shape_height img * shape_width img * 3)) (image_data_of p (rgb8_pos hdr)))"
      by blast
    have comm: "shape_height img * shape_width img * 3 = ?e" by (simp add: mult.commute)
    have r: "0 \<le> rgb8_pos hdr" using hdr by (rule parse_header_rgb8_nonneg)
    have le2: "?e \<le> int (length (image_data_of p (rgb8_pos hdr)))"
      using le image_data_length_ge [OF r, of p] unfolding comm by linarith
    have e0: "0 \<le> ?e" using pos by simp
    have "nat ?e \<le> length (image_data_of p (rgb8_pos hdr))" using le2 e0 by linarith
    then have lt: "length (take (nat ?e) (image_data_of p (rgb8_pos hdr))) = nat ?e"
      by (simp only: length_take min_absorb2)
    have "nat ?e = nat (shape_width img * shape_height img) * 3"
      using pos by (simp add: nat_mult_distrib)
    then have "3 dvd nat ?e" by simp
    then have "length (cvtColor_RGB2BGR (take (nat ?e) (image_data_of p (rgb8_pos hdr)))) = nat ?e"
      using cvtColor_length [of "take (nat ?e) (image_data_of p (rgb8_pos hdr))"] lt
      by (simp only:)
    then have "int (length (pixel_bytes img)) = ?e"
      using px e0 unfolding comm by simp
    then show ?thesis using hdr le2 px unfolding comm by blast
  qed
  have b: "parse_ros2_image_body p = Inl (Raised ValueError) \<and> parse_ros2_image p = None"
    if hdr: "parse_header p = Inr hdr"
      and res: "resolve_dimensions (width_field hdr) (height_field hdr)
        (int (length p) - header_size (rgb8_pos hdr)) = Inr (w, h)"
      and lt: "int (length (image_data_of p (rgb8_pos hdr))) < w * h * 3" for hdr w h
  proof -
    have r: "0 \<le> rgb8_pos hdr" using hdr by (rule parse_header_rgb8_nonneg)
    have "int (length p) - header_size (rgb8_pos hdr) < w * h * 3"
      using lt image_data_length_ge [OF r, of p] by linarith
    then have "int (length p) - header_size (rgb8_pos hdr) < h * w * 3"
      by (simp add: mult.commute)
    then have "parse_ros2_image_body p = Inl (Raised ValueError)"
      by (rule decode_short [OF hdr res])
    then show ?thesis by (simp add: parse_ros2_image_None)
  qed
  show ?thesis using a b by blast
qed

lemma match_921650: "match_resolution common_resolutions 921650 = Some (640, 480)"
  by (simp add: common_resolutions_def)

lemma match_921550: "match_resolution common_resolutions 921550 = Some (640, 480)"
  by (simp add: common_resolutions_def)

theorem pixel_slice_exact_witness:
  "(\<exists>img. parse_ros2_image (frame_hdr @ replicate 921650 0) = Some img \<and>
      shape_width img = 640 \<and> shape_height img = 480 \<and>
      int (length (pixel_bytes img)) = 640 * 480 * 3) \<and>
   int (length (image_data_of (frame_hdr @ replicate 921650 0) 27)) = 640 * 480 * 3 + 50 \<and>
   int (length (image_data_of (frame_hdr @ replicate 921550 0) 27)) < 640 * 480 * 3 \<and>
   parse_ros2_image_body (frame_hdr @ replicate 921550 0) = Inl (Raised ValueError) \<and>
   parse_ros2_image (frame_hdr @ replicate 921550 0) = None"
proof -
  let ?long = "frame_hdr @ replicate 921650 (0 :: byte)"
  let ?short = "frame_hdr @ replicate 921550 (0 :: byte)"
  have h1: "parse_header ?long = Inr frame_hdr_fields" by (rule parse_header_frame_hdr)
  have h2: "parse_header ?short = Inr frame_hdr_fields" by (rule parse_header_frame_hdr)
  have n1: "(921650 :: int) = int (length ?long) - header_size (rgb8_pos frame_hdr_fields)"
    by (simp add: frame_hdr_length frame_hdr_rgb8 hs27)
  have n2: "(921550 :: int) = int (length ?short) - header_size (rgb8_pos frame_hdr_fields)"
    by (simp add: frame_hdr_length frame_hdr_rgb8 hs27)
  have r1: "resolve_dimensions (width_field frame_hdr_fields) (height_field frame_hdr_fields)
      921650 = Inr (640, 480)"
    using match_921650 by (rule resolve_matched)
  have r2: "resolve_dimensions (width_field frame_hdr_fields) (height_field frame_hdr_fields)
      921550 = Inr (640, 480)"
    using match_921550 by (rule resolve_matched)
  have le: "(480 :: int) * 640 * 3 \<le> 921650" by simp
  obtain img where img: "parse_ros2_image ?long = Some img"
    and w: "shape_width img = 640" and h: "shape_height img = 480"
    using decode_enough_n [OF h1 n1 r1 le] by (simp add: parse_ros2_image_Some)
  have "int (length (pixel_bytes img)) = shape_width img * shape_height img * 3"
    using pixel_slice_exact [of ?long, THEN conjunct1] img by blast
  then have a: "\<exists>img. parse_ros2_image ?long = Some img \<and>
      shape_width img = 640 \<and> shape_height img = 480 \<and>
      int (length (pixel_bytes img)) = 640 * 480 * 3"
    using img w h by simp
  have l1: "int (length (image_data_of ?long 27)) = 640 * 480 * 3 + 50"
    by (simp add: image_data_of_eq hs27 frame_hdr_length)
  have l2: "int (length (image_data_of ?short (rgb8_pos frame_hdr_fields))) < 640 * 480 * 3"
    by (simp add: image_data_of_eq hs27 frame_hdr_length frame_hdr_rgb8)
  have "parse_ros2_image_body ?short = Inl (Raised ValueError) \<and> parse_ros2_image ?short = None"
    using pixel_slice_exact [of ?short, THEN conjunct2] h2 r2 [unfolded n2] l2 by blast
  then show ?thesis using a l1 l2 by (simp add: frame_hdr_rgb8)
qed

text \<open>
  Claim C2 as stated fails: the code adds 5, not 4, for the encoding tag. On the sample
  header followed by the bytes 1, 2, 3 the tag is found at 27, the header size is 37 and
  not \<open>27 + 4 + 1 + 4\<close>, the payload slice is \<open>[1, 2, 3]\<close> where a slice from
  \<open>27 + 4 + 1 + 4\<close> would be \<open>[0, 1, 2, 3]\<close>, and the decoded pixel is made of 1, 2, 3.
\<close>

theorem payload_offset_counterexample:
  "parse_header (frame_hdr @ [1, 2, 3]) = Inr frame_hdr_fields \<and>
   rgb8_pos frame_hdr_fields = 27 \<and>
   find_bytes (frame_hdr @ [1, 2, 3]) (ascii ''rgb8'') = 27 \<and>
   header_size 27 \<noteq> 27 + 4 + 1 + 4 \<and>
   int (length (frame_hdr @ [1, 2, 3])) - header_size 27
     \<noteq> int (length (frame_hdr @ [1, 2, 3])) - (27 + 4 + 1 + 4) \<and>
   image_data_of (frame_hdr @ [1, 2, 3]) 27 = [1, 2, 3] \<and>
   drop (nat (27 + 4 + 1 + 4)) (frame_hdr @ [1, 2, 3]) = [0, 1, 2, 3] \<and>
   parse_ros2_image (frame_hdr @ [1, 2, 3]) =
     Some \<lparr>shape_height = 1, shape_width = 1, pixel_bytes = [3, 2, 1]\<rparr>"
proof -
  let ?buf = "frame_hdr @ [1, 2, 3 :: byte]"
  have h: "parse_header ?buf = Inr frame_hdr_fields" by (rule parse_header_frame_hdr)
  have f: "find_bytes ?buf (ascii ''rgb8'') = 27"
    using parse_header_Inr [OF h] by (simp add: frame_hdr_rgb8)
  have n: "(3 :: int) = int (length ?buf) - header_size (rgb8_pos frame_hdr_fields)"
    by (simp add: frame_hdr_length frame_hdr_rgb8 hs27)
  have s1: "sqrt_nat (Suc 0) = Suc 0" by (simp add: sqrt_nat.simps)
  have fb: "fallback_resolution 3 = Inr (1, 1)"
    by (simp add: fallback_resolution_def int_pow_half_def floordiv_def s1)
  have r: "resolve_dimensions (width_field frame_hdr_fields) (height_field frame_hdr_fields) 3
      = Inr (1, 1)"
  proof -
    have "match_resolution common_resolutions 3 = None" by (simp add: common_resolutions_def)
    then show ?thesis using fb by (simp add: resolve_unmatched)
  qed
  have le: "(1 :: int) * 1 * 3 \<le> 3" by simp
  have "parse_ros2_image_body ?buf =
     Inr \<lparr>shape_height = 1, shape_width = 1, pixel_bytes = [3, 2, 1]\<rparr>"
    using decode_enough_n [OF h n r le] by (simp add: frame_hdr_rgb8 hs27 frame_hdr_length)
  then have p: "parse_ros2_image ?buf =
     Some \<lparr>shape_height = 1, shape_width = 1, pixel_bytes = [3, 2, 1]\<rparr>"
    by (simp add: parse_ros2_image_Some)
  have i: "image_data_of ?buf 27 = [1, 2, 3]"
    by (simp add: image_data_of_eq hs27 frame_hdr_length)
  have d'': "drop (nat (27 + 4 + 1 + 4)) ?buf = [0, 1, 2, 3]"
    by (simp add: frame_hdr_def)
  have hs: "header_size 27 \<noteq> 27 + 4 + 1 + 4" by (simp add: header_size_def)
  have sz: "int (length ?buf) - header_size 27 \<noteq> int (length ?buf) - (27 + 4 + 1 + 4)"
    by (simp add: header_size_def)
  show ?thesis
    by (intro conjI) (rule h, rule frame_hdr_rgb8, rule f, rule hs, rule sz, rule i, rule d'', rule p)
qed

text \<open>
  Claim C2, amended. Once the header is read, with \<open>rgb8\<close> (4 bytes) first found at
  position \<open>r\<close>: the header size is \<open>r + 5 + 1 + 4\<close> (the tag with its terminator, the
  endianness flag, the row step), the payload slice runs from that offset to the end of
  the buffer, its size is the buffer length minus the header size, and the pixels of a
  decoded image are taken from that offset.
\<close>

theorem payload_offset:
  assumes "parse_header p = Inr hdr"
  shows "rgb8_pos hdr = find_bytes p (ascii ''rgb8'') \<and> 0 \<le> rgb8_pos hdr \<and>
         prefix (ascii ''rgb8'') (drop (nat (rgb8_pos hdr)) p) \<and>
         length (ascii ''rgb8'') = 4 \<and>
         header_size (rgb8_pos hdr) = rgb8_pos hdr + 5 + 1 + 4 \<and>
         image_data_of p (rgb8_pos hdr) = drop (nat (rgb8_pos hdr + 5 + 1 + 4)) p \<and>
         (header_size (rgb8_pos hdr) \<le> int (length p) \<longrightarrow>
            int (length (image_data_of p (rgb8_pos hdr)))
              = int (length p) - header_size (rgb8_pos hdr)) \<and>
         (\<forall>img. parse_ros2_image p = Some img \<longrightarrow>
            pixel_bytes img = cvtColor_RGB2BGR
              (take (nat (shape_height img * shape_width img * 3))
                 (drop (nat (rgb8_pos hdr + 5 + 1 + 4)) p)))"
proof -
  have a: "rgb8_pos hdr = find_bytes p (ascii ''rgb8'')" and ne: "rgb8_pos hdr \<noteq> - 1"
    using parse_header_Inr [OF assms] by simp_all
  have b: "0 \<le> rgb8_pos hdr" using assms by (rule parse_header_rgb8_nonneg)
  have c: "prefix (ascii ''rgb8'') (drop (nat (rgb8_pos hdr)) p)"
    using find_bytes_found [of p "ascii ''rgb8''"] a ne by simp
  have d: "length (ascii ''rgb8'') = 4" by (simp add: ascii_def)
  have e: "header_size (rgb8_pos hdr) = rgb8_pos hdr + 5 + 1 + 4" by (simp add: header_size_def)
  have f: "image_data_of p (rgb8_pos hdr) = drop (nat (rgb8_pos hdr + 5 + 1 + 4)) p"
    using image_data_of_eq [OF b, of p] unfolding e .
  have g: "header_size (rgb8_pos hdr) \<le> int (length p) \<longrightarrow>
            int (length (image_data_of p (rgb8_pos hdr)))
              = int (length p) - header_size (rgb8_pos hdr)"
    using image_data_length_eq [OF b] by blast
  have i: "pixel_bytes img = cvtColor_RGB2BGR
              (take (nat (shape_height img * shape_width img * 3))
                 (drop (nat (rgb8_pos hdr + 5 + 1 + 4)) p))"
    if "parse_ros2_image p = Some img" for img
    using pixel_bytes_of_image [OF that] assms f by auto
  show ?thesis using a b c d e f g i by blast
qed

theorem payload_offset_witness:
  "parse_header (frame_hdr @ [1, 2, 3]) = Inr frame_hdr_fields \<and>
   rgb8_pos frame_hdr_fields = 27 \<and>
   header_size 27 = 37 \<and>
   image_data_of (frame_hdr @ [1, 2, 3]) 27 = [1, 2, 3]"
proof -
  have h: "parse_header (frame_hdr @ [1, 2, 3]) = Inr frame_hdr_fields"
    by (rule parse_header_frame_hdr)
  have "drop 37 (frame_hdr @ [1, 2, 3 :: byte]) = [1, 2, 3]" by (simp add: frame_hdr_def)
  then show ?thesis
    using h payload_offset [OF h] by (simp add: frame_hdr_rgb8)
qed

lemma le_value_nonneg: "0 \<le> le_value bs"
  by (induction bs) simp_all

lemma py_slice_length:
  "0 \<le> i \<Longrightarrow> i \<le> j \<Longrightarrow>
   length (py_slice xs i j) = min (nat j) (length xs) - min (nat i) (length xs)"
  by (simp add: py_slice_def norm_index_def Let_def)

lemma length_ascii_camera: "length (ascii ''camera'') = 6"
  by (simp add: ascii_def)

lemma dimensions_out_of_range:
  assumes "find_bytes p (ascii ''camera'') = c"
    and "4 \<le> c"
    and "int (length p) < c + le_value (py_slice p (c - 4) c) + 8"
  shows "parse_header p = Inl (Raised StructError)"
proof -
  define L where "L = le_value (py_slice p (c - 4) c)"
  define fe where "fe = c + L"
  have ne: "find_bytes p (ascii ''camera'') \<noteq> - 1" using assms(1,2) by simp
  have "ascii ''camera'' \<noteq> []" by (simp add: ascii_def)
  from find_bytes_bound [OF ne this] have c6: "c + 6 \<le> int (length p)"
    using assms(1) by (simp add: length_ascii_camera)
  have "length (py_slice p (c - 4) c) = 4"
    using assms(2) c6 by (simp add: py_slice_length)
  then have u0: "unpack_I (py_slice p (c - 4) c) = Inr L"
    by (simp add: unpack_I_def L_def)
  have L0: "0 \<le> L" by (simp add: L_def le_value_nonneg)
  have fe0: "0 \<le> fe" using assms(2) L0 by (simp add: fe_def)
  have short: "int (length p) < fe + 8" using assms(3) by (simp add: fe_def L_def)
  have l1: "length (py_slice p fe (fe + 4)) = min (nat (fe + 4)) (length p) - min (nat fe) (length p)"
    using fe0 by (simp add: py_slice_length)
  have l2: "length (py_slice p (fe + 4) (fe + 8))
      = min (nat (fe + 8)) (length p) - min (nat (fe + 4)) (length p)"
    using fe0 by (simp add: py_slice_length)
  have dims: "(case unpack_I (py_slice p fe (fe + 4)) of
                 Inl e \<Rightarrow> Inl (Raised e)
               | Inr height \<Rightarrow>
                  (case unpack_I (py_slice p (fe + 4) (fe + 8)) of
                     Inl e \<Rightarrow> Inl (Raised e)
                   | Inr width \<Rightarrow> k height width)) = (Inl (Raised StructError) :: failure + header)"
    for k
  proof (cases "length (py_slice p fe (fe + 4)) = 4")
    case True
    then have "nat (fe + 4) \<le> length p" using l1 fe0 by linarith
    then have "length (py_slice p (fe + 4) (fe + 8)) \<noteq> 4" using l2 short fe0 by linarith
    then show ?thesis by (simp add: unpack_I_def True)
  next
    case False
    then show ?thesis by (simp add: unpack_I_def)
  qed
  have c4: "c - 4 + 4 = c" by simp
  show ?thesis
    unfolding parse_header_def Let_def assms(1) c4 u0
    using assms(2) by (simp add: dims [unfolded fe_def])
qed

lemma frame_id_position_out_of_range:
  assumes "find_bytes p (ascii ''camera'') \<noteq> - 1" "find_bytes p (ascii ''camera'') < 4"
  shows "parse_header p = Inl Invalid_frame_id_position"
  unfolding parse_header_def Let_def using assms by simp

lemma body_header_failed: "parse_header p = Inl f \<Longrightarrow> parse_ros2_image_body p = Inl f"
  by (simp add: parse_ros2_image_body_def)

text \<open>
  Claim C9. For every payload the decoder returns an image or \<open>None\<close>: every way the
  body of the \<open>try\<close> can stop without an image, an early return or a raised exception,
  ends in \<open>None\<close>. In particular a marker too close to the start for its length prefix
  is an early return; dimension fields that reach past the end of the buffer make
  \<open>struct.unpack\<close> raise; a payload shorter than the resolved dimensions makes the
  reshape raise; and each of them gives \<open>None\<close>.
\<close>

theorem parse_ros2_image_never_raises:
  "((\<exists>img. parse_ros2_image_body p = Inr img \<and> parse_ros2_image p = Some img) \<or>
    (\<exists>f. parse_ros2_image_body p = Inl f \<and> parse_ros2_image p = None)) \<and>
   (\<forall>e. parse_ros2_image_body p = Inl (Raised e) \<longrightarrow> parse_ros2_image p = None) \<and>
   (find_bytes p (ascii ''camera'') \<noteq> - 1 \<and> find_bytes p (ascii ''camera'') < 4 \<longrightarrow>
      parse_ros2_image_body p = Inl Invalid_frame_id_position \<and> parse_ros2_image p = None) \<and>
   (\<forall>c. find_bytes p (ascii ''camera'') = c \<and> 4 \<le> c \<and>
        int (length p) < c + le_value (py_slice p (c - 4) c) + 8 \<longrightarrow>
      parse_ros2_image_body p = Inl (Raised StructError) \<and> parse_ros2_image p = None) \<and>
   (\<forall>hdr w h. parse_header p = Inr hdr \<and>
        resolve_dimensions (width_field hdr) (height_field hdr)
          (int (length p) - header_size (rgb8_pos hdr)) = Inr (w, h) \<and>
        int (length p) - header_size (rgb8_pos hdr) < h * w * 3 \<longrightarrow>
      parse_ros2_image_body p = Inl (Raised ValueError) \<and> parse_ros2_image p = None)"
proof -
  have a: "(\<exists>img. parse_ros2_image_body p = Inr img \<and> parse_ros2_image p = Some img) \<or>
    (\<exists>f. parse_ros2_image_body p = Inl f \<and> parse_ros2_image p = None)"
    by (cases "parse_ros2_image_body p") (simp_all add: parse_ros2_image_def)
  have none: "parse_ros2_image p = None" if "parse_ros2_image_body p = Inl f" for f
    using that by (simp add: parse_ros2_image_def)
  have b: "\<forall>e. parse_ros2_image_body p = Inl (Raised e) \<longrightarrow> parse_ros2_image p = None"
    using none by blast
  have c: "parse_ros2_image_body p = Inl Invalid_frame_id_position \<and> parse_ros2_image p = None"
    if "find_bytes p (ascii ''camera'') \<noteq> - 1 \<and> find_bytes p (ascii ''camera'') < 4"
  proof -
    have "parse_header p = Inl Invalid_frame_id_position"
      using that by (intro frame_id_position_out_of_range) simp_all
    then have "parse_ros2_image_body p = Inl Invalid_frame_id_position"
      by (rule body_header_failed)
    then show ?thesis using none by simp
  qed
  have d: "parse_ros2_image_body p = Inl (Raised StructError) \<and> parse_ros2_image p = None"
    if "find_bytes p (ascii ''camera'') = c \<and> 4 \<le> c \<and>
        int (length p) < c + le_value (py_slice p (c - 4) c) + 8" for c
  proof -
    have "parse_header p = Inl (Raised StructError)"
      using that by (intro dimensions_out_of_range [of p c]) simp_all
    then have "parse_ros2_image_body p = Inl (Raised StructError)"
      by (rule body_header_failed)
    then show ?thesis using none by simp
  qed
  have e: "parse_ros2_image_body p = Inl (Raised ValueError) \<and> parse_ros2_image p = None"
    if "parse_header p = Inr hdr \<and>
        resolve_dimensions (width_field hdr) (height_field hdr)
          (int (length p) - header_size (rgb8_pos hdr)) = Inr (w, h) \<and>
        int (length p) - header_size (rgb8_pos hdr) < h * w * 3" for hdr w h
  proof -
    have "parse_ros2_image_body p = Inl (Raised ValueError)"
      using that by (intro decode_short [of p hdr w h]) simp_all
    then show ?thesis using none by simp
  qed
  show ?thesis
    using a b c d e by blast
qed

theorem parse_ros2_image_never_raises_witness:
  "find_bytes (drop 6 frame_hdr) (ascii ''camera'') = 2 \<and>
   parse_ros2_image_body (drop 6 frame_hdr) = Inl Invalid_frame_id_position \<and>
   parse_ros2_image (drop 6 frame_hdr) = None \<and>
   find_bytes (take 22 frame_hdr) (ascii ''camera'') = 8 \<and>
   le_value (py_slice (take 22 frame_hdr) (8 - 4) 8) = 7 \<and>
   int (length (take 22 frame_hdr)) < 8 + 7 + 8 \<and>
   parse_ros2_image_body (take 22 frame_hdr) = Inl (Raised StructError) \<and>
   parse_ros2_image (take 22 frame_hdr) = None"
proof -
  have f1: "find_bytes (drop 6 frame_hdr) (ascii ''camera'') = 2"
    by (simp add: frame_hdr_def find_bytes_def ascii_def)
  have f2: "find_bytes (take 22 frame_hdr) (ascii ''camera'') = 8"
    by (simp add: frame_hdr_def find_bytes_def ascii_def)
  have v: "le_value (py_slice (take 22 frame_hdr) (8 - 4) 8) = 7"
    by (simp add: frame_hdr_def py_slice_def norm_index_def)
  have l: "int (length (take 22 frame_hdr)) < 8 + 7 + 8"
    by (simp add: frame_hdr_def)
  have a: "parse_ros2_image_body (drop 6 frame_hdr) = Inl Invalid_frame_id_position \<and>
      parse_ros2_image (drop 6 frame_hdr) = None"
    using parse_ros2_image_never_raises [of "drop 6 frame_hdr",
        THEN conjunct2, THEN conjunct2, THEN conjunct1] f1
    by simp
  have b: "parse_ros2_image_body (take 22 frame_hdr) = Inl (Raised StructError) \<and>
      parse_ros2_image (take 22 frame_hdr) = None"
    using parse_ros2_image_never_raises [of "take 22 frame_hdr",
        THEN conjunct2, THEN conjunct2, THEN conjunct2, THEN conjunct1, rule_format, of 8] f2 v l
    by simp
  show ?thesis using f1 f2 v l a b by blast
qed

end
